theory Spec2Isabelle
  imports Complex_Main "HOL-Library.Sublist" "HOL-Library.Monad_Syntax" "HOL-Library.Log_Nat"
begin

section \<open>Strings\<close>

text \<open>
  A JavaScript string is modelled as a \<^typ>\<open>string\<close>: one \<^typ>\<open>char\<close> per code unit,
  restricted to code units below 256.
\<close>

text \<open>\<^verbatim>\<open>String.prototype.includes\<close>: the pattern occurs at some position of the text.\<close>

fun str_includes :: "string \<Rightarrow> string \<Rightarrow> bool" where
  "str_includes [] pat = (pat = [])"
| "str_includes (c # cs) pat = (prefix pat (c # cs) \<or> str_includes cs pat)"

text \<open>Decimal digits, and the white space of \<^verbatim>\<open>\s\<close> and of number parsing below code unit 256.\<close>

definition is_digit :: "char \<Rightarrow> bool" where
  "is_digit c \<longleftrightarrow> c \<in> set ''0123456789''"

definition is_space :: "char \<Rightarrow> bool" where
  "is_space c \<longleftrightarrow> c \<in> {CHR 0x09, CHR 0x0A, CHR 0x0B, CHR 0x0C, CHR 0x0D, CHR 0x20, CHR 0xA0}"

definition radix_digit :: "int \<Rightarrow> char \<Rightarrow> int option" where
  "radix_digit r c =
     (let v = (if c \<in> set ''0123456789'' then Some (of_char c - (48::int))
               else if c \<in> set ''abcdef'' then Some (of_char c - (87::int))
               else if c \<in> set ''ABCDEF'' then Some (of_char c - (55::int))
               else None)
      in case v of None \<Rightarrow> None | Some d \<Rightarrow> if d < r then Some d else None)"

definition digit_val :: "int \<Rightarrow> char \<Rightarrow> int" where
  "digit_val r c = (case radix_digit r c of None \<Rightarrow> 0 | Some d \<Rightarrow> d)"

definition digits_value :: "int \<Rightarrow> string \<Rightarrow> int" where
  "digits_value r ds = foldl (\<lambda>acc c. acc * r + digit_val r c) 0 ds"

text \<open>\<^verbatim>\<open>`${n}`\<close> for a non-negative integer: its decimal digits.\<close>

definition digit_char :: "nat \<Rightarrow> char" where
  "digit_char d = ''0123456789'' ! d"

fun show_nat :: "nat \<Rightarrow> string" where
  "show_nat n = (if n < 10 then [digit_char n] else show_nat (n div 10) @ [digit_char (n mod 10)])"

declare show_nat.simps [simp del]

text \<open>\<^verbatim>\<open>toLowerCase\<close>, on the letters A to Z.\<close>

definition lower_char :: "char \<Rightarrow> char" where
  "lower_char c = (if c \<in> set ''ABCDEFGHIJKLMNOPQRSTUVWXYZ'' then char_of (of_char c + (32::nat)) else c)"

definition toLowerCase :: "string \<Rightarrow> string" where
  "toLowerCase s = map lower_char s"

section \<open>Paths (server.js, lines 24-41, 61-64, 239-240)\<close>

text \<open>
  \<^verbatim>\<open>
  function escapeShellPath(filePath) {
    return `"${filePath.replace(/"/g, '\\"')}"`;
  }
  \<close>
  Every double quote of the path gets a backslash in front, and the result is put
  between double quotes. \<open>CHR 0x22\<close> is the double quote, \<open>CHR 0x5C\<close> the backslash.
\<close>

definition escape_quotes :: "string \<Rightarrow> string" where
  "escape_quotes s = concat (map (\<lambda>c. if c = CHR 0x22 then [CHR 0x5C, CHR 0x22] else [c]) s)"

definition escapeShellPath :: "string \<Rightarrow> string" where
  "escapeShellPath filePath = [CHR 0x22] @ escape_quotes filePath @ [CHR 0x22]"

text \<open>
  \<^verbatim>\<open>path.extname\<close> (POSIX): trailing slashes are dropped, the last component is taken,
  and the extension starts at its last dot, unless there is no dot, the last dot is the
  component's first character, or the component is \<^verbatim>\<open>..\<close>.
\<close>

definition last_component :: "string \<Rightarrow> string" where
  "last_component p =
     rev (takeWhile (\<lambda>c. c \<noteq> CHR ''/'') (dropWhile (\<lambda>c. c = CHR ''/'') (rev p)))"

definition extname :: "string \<Rightarrow> string" where
  "extname p =
     (let comp = last_component p;
          after_dot = rev (takeWhile (\<lambda>c. c \<noteq> CHR ''.'') (rev comp));
          upto_dot = length comp - length after_dot
      in if CHR ''.'' \<notin> set comp \<or> upto_dot = 1 \<or> comp = ''..'' then []
         else CHR ''.'' # after_dot)"

text \<open>
  \<^verbatim>\<open>
  function isValidVideoFile(filename) {
    const validExtensions = [".mp4", ".avi", ".mov", ".mkv", ".wmv", ".flv", ".webm"];
    const ext = path.extname(filename).toLowerCase();
    return validExtensions.includes(ext);
  }
  \<close>
\<close>

definition validExtensions :: "string list" where
  "validExtensions = [''.mp4'', ''.avi'', ''.mov'', ''.mkv'', ''.wmv'', ''.flv'', ''.webm'']"

definition isValidVideoFile :: "string \<Rightarrow> bool" where
  "isValidVideoFile filename \<longleftrightarrow> toLowerCase (extname filename) \<in> set validExtensions"

text \<open>
  \<^verbatim>\<open>path.join(tempDir, file)\<close> for a directory as \<^verbatim>\<open>os.tmpdir()\<close> returns it (normalised,
  no trailing slash) and a file name without a slash: nothing is left to normalise.

  \<^verbatim>\<open>
  inputPath = path.join(tempDir, `input-${timestamp}-${video.name}`);
  outputPath = path.join(tempDir, `gif-${timestamp}.gif`);
  inputPath = path.join(tempDir, `info-${Date.now()}-${video.name}`);
  \<close>
  The time stamp is \<^verbatim>\<open>Date.now()\<close>, the milliseconds since the epoch.
\<close>

type_synonym path = string

definition path_join :: "path \<Rightarrow> string \<Rightarrow> path" where
  "path_join dir file = dir @ ''/'' @ file"

definition gif_inputPath :: "path \<Rightarrow> nat \<Rightarrow> string \<Rightarrow> path" where
  "gif_inputPath tempDir timestamp name = path_join tempDir (''input-'' @ show_nat timestamp @ ''-'' @ name)"

definition gif_outputPath :: "path \<Rightarrow> nat \<Rightarrow> path" where
  "gif_outputPath tempDir timestamp = path_join tempDir (''gif-'' @ show_nat timestamp @ ''.gif'')"

definition info_inputPath :: "path \<Rightarrow> nat \<Rightarrow> string \<Rightarrow> path" where
  "info_inputPath tempDir timestamp name = path_join tempDir (''info-'' @ show_nat timestamp @ ''-'' @ name)"

text \<open>
  A job is a request served at a time stamp: a conversion owns an input and an output
  path, a metadata probe an input path.
\<close>

datatype endpoint = Gif | VideoInfo

record job =
  j_endpoint :: endpoint
  j_timestamp :: nat
  j_name :: string

definition job_paths :: "path \<Rightarrow> job \<Rightarrow> path set" where
  "job_paths tempDir j =
     (case j_endpoint j of
        Gif \<Rightarrow> {gif_inputPath tempDir (j_timestamp j) (j_name j), gif_outputPath tempDir (j_timestamp j)}
      | VideoInfo \<Rightarrow> {info_inputPath tempDir (j_timestamp j) (j_name j)})"

section \<open>The shell's reading of a double-quoted word\<close>

text \<open>
  \<^verbatim>\<open>exec\<close> hands the command line to \<^verbatim>\<open>/bin/sh -c\<close>. Inside double quotes the POSIX
  shell takes every character literally except the backslash, which escapes a following
  dollar sign, backquote, double quote or backslash and removes a following newline,
  and the dollar sign and the backquote, which start an expansion. \<open>read_dquoted\<close>
  reads a word that begins with a double quote up to the closing quote: it gives the
  argument text and the rest of the line, or says why there is none.
\<close>

datatype sh_reading = Argument string string | Unterminated | Expansion | Unquoted

fun dquote_body :: "string \<Rightarrow> string \<Rightarrow> sh_reading" where
  "dquote_body acc [] = Unterminated"
| "dquote_body acc [c] =
     (if c = CHR 0x22 then Argument (rev acc) []
      else if c = CHR ''$'' \<or> c = CHR 0x60 then Expansion
      else Unterminated)"
| "dquote_body acc (c # d # rest) =
     (if c = CHR 0x22 then Argument (rev acc) (d # rest)
      else if c = CHR ''$'' \<or> c = CHR 0x60 then Expansion
      else if c = CHR 0x5C then
        (if d \<in> {CHR ''$'', CHR 0x60, CHR 0x22, CHR 0x5C} then dquote_body (d # acc) rest
         else if d = CHR 0x0A then dquote_body acc rest
         else dquote_body (d # c # acc) rest)
      else dquote_body (c # acc) (d # rest))"

definition read_dquoted :: "string \<Rightarrow> sh_reading" where
  "read_dquoted w = (case w of [] \<Rightarrow> Unquoted | c # rest \<Rightarrow> if c = CHR 0x22 then dquote_body [] rest else Unquoted)"

section \<open>Numbers\<close>

text \<open>
  A JavaScript number is NaN, an infinity or a finite binary64 value. A finite value is
  kept as the rational it denotes; both zeros are \<open>Num 0\<close>.
\<close>

datatype jsnum = NaN | NegInf | Num rat | PosInf

text \<open>
  Rounding to binary64, to nearest with ties to even. \<open>binade x\<close> is the \<open>e\<close> with
  \<open>2 ^ e \<le> x < 2 ^ (e + 1)\<close> for a positive \<open>x\<close>; the result is a multiple of
  \<open>2 ^ (e - 52)\<close>, or of \<open>2 ^ (- 1074)\<close> in the subnormal range, and a result of
  \<open>2 ^ 1024\<close> or more (one in binade 1024) is an infinity.
\<close>

definition pow2 :: "int \<Rightarrow> rat" where
  "pow2 e = (if 0 \<le> e then 2 ^ nat e else 1 / 2 ^ nat (- e))"

definition round_half_even :: "rat \<Rightarrow> int" where
  "round_half_even x =
     (let f = \<lfloor>x\<rfloor>; r = x - of_int f
      in if r < 1 / 2 then f else if 1 / 2 < r then f + 1 else if even f then f else f + 1)"

definition binade :: "rat \<Rightarrow> int" where
  "binade x = (let e = bitlen (fst (quotient_of x)) - bitlen (snd (quotient_of x))
               in if pow2 e \<le> x then e else e - 1)"

definition round64 :: "rat \<Rightarrow> rat" where
  "round64 x =
     (if x = 0 then 0
      else let u = pow2 (max (binade \<bar>x\<bar> - 52) (- 1074));
               n = of_int (round_half_even (\<bar>x\<bar> / u)) * u
           in if x < 0 then - n else n)"

definition double_of :: "rat \<Rightarrow> jsnum" where
  "double_of x =
     (let r = round64 x
      in if r = 0 then Num 0
         else if 1024 \<le> binade \<bar>r\<bar> then (if 0 < r then PosInf else NegInf)
         else Num r)"

text \<open>
  \<^verbatim>\<open>a + b\<close>, and \<^verbatim>\<open>a * c\<close> and \<^verbatim>\<open>a / c\<close> for a positive finite constant \<open>c\<close>: the
  exact result, rounded.
\<close>

fun js_add :: "jsnum \<Rightarrow> jsnum \<Rightarrow> jsnum" where
  "js_add NaN _ = NaN"
| "js_add _ NaN = NaN"
| "js_add PosInf NegInf = NaN"
| "js_add NegInf PosInf = NaN"
| "js_add PosInf _ = PosInf"
| "js_add _ PosInf = PosInf"
| "js_add NegInf _ = NegInf"
| "js_add _ NegInf = NegInf"
| "js_add (Num a) (Num b) = double_of (a + b)"

fun js_times :: "jsnum \<Rightarrow> rat \<Rightarrow> jsnum" where
  "js_times (Num a) c = double_of (a * c)"
| "js_times a c = a"

fun js_over :: "jsnum \<Rightarrow> rat \<Rightarrow> jsnum" where
  "js_over (Num a) c = double_of (a / c)"
| "js_over a c = a"

fun js_le :: "jsnum \<Rightarrow> jsnum \<Rightarrow> bool" where
  "js_le NaN _ = False"
| "js_le _ NaN = False"
| "js_le NegInf _ = True"
| "js_le _ PosInf = True"
| "js_le (Num a) (Num b) = (a \<le> b)"
| "js_le _ _ = False"

text \<open>\<^verbatim>\<open>Math.max\<close> and \<^verbatim>\<open>Math.min\<close> of two arguments: NaN when either is NaN.\<close>

definition Math_max :: "jsnum \<Rightarrow> jsnum \<Rightarrow> jsnum" where
  "Math_max a b = (if a = NaN \<or> b = NaN then NaN else if js_le a b then b else a)"

definition Math_min :: "jsnum \<Rightarrow> jsnum \<Rightarrow> jsnum" where
  "Math_min a b = (if a = NaN \<or> b = NaN then NaN else if js_le a b then a else b)"

text \<open>\<^verbatim>\<open>a || b\<close> on numbers: NaN and zero are falsy.\<close>

definition truthy :: "jsnum \<Rightarrow> bool" where
  "truthy a \<longleftrightarrow> a \<noteq> NaN \<and> a \<noteq> Num 0"

definition js_or :: "jsnum \<Rightarrow> jsnum \<Rightarrow> jsnum" where
  "js_or a b = (if truthy a then a else b)"

text \<open>
  \<^verbatim>\<open>parseInt(x)\<close> with no radix: leading white space is skipped, then an optional sign,
  then an optional \<^verbatim>\<open>0x\<close> that selects radix 16, then the longest run of digits of
  the radix; no digit gives NaN, and the value of the digits is rounded to binary64.
  An absent field is \<^verbatim>\<open>undefined\<close>, which is parsed as the text "undefined".
\<close>

definition parseInt_str :: "string \<Rightarrow> jsnum" where
  "parseInt_str input =
     (let s0 = dropWhile is_space input;
          negative = (case s0 of c # _ \<Rightarrow> c = CHR ''-'' | [] \<Rightarrow> False);
          s1 = (case s0 of c # cs \<Rightarrow> if c = CHR ''+'' \<or> c = CHR ''-'' then cs else s0 | [] \<Rightarrow> s0);
          hex = (prefix ''0x'' s1 \<or> prefix ''0X'' s1);
          r = (if hex then 16 else 10);
          s2 = (if hex then drop 2 s1 else s1);
          z = takeWhile (\<lambda>c. radix_digit r c \<noteq> None) s2
      in if z = [] then NaN
         else if negative then double_of (- of_int (digits_value r z))
         else double_of (of_int (digits_value r z)))"

definition parseInt :: "string option \<Rightarrow> jsnum" where
  "parseInt raw = parseInt_str (case raw of None \<Rightarrow> ''undefined'' | Some s \<Rightarrow> s)"

section \<open>Conversion settings (server.js, lines 67-73)\<close>

text \<open>
  \<^verbatim>\<open>
  const fps = Math.max(5, Math.min(30, parseInt(req.body.fps) || 15));
  const scale = Math.max(240, Math.min(1920, parseInt(req.body.scale) || 480));
  const startTime = Math.max(0, parseFloat(req.body.startTime) || 0);
  const duration = Math.max(0, parseFloat(req.body.duration) || 0);
  \<close>
  \<^verbatim>\<open>req.body\<close> is an object only when the upload carried a text field; with none it
  is \<^verbatim>\<open>undefined\<close>, and reading \<^verbatim>\<open>req.body.fps\<close> throws a TypeError. In an object,
  a form field is the text it holds, or absent. \<open>normalize\<close> is the arithmetic of the
  four lines on a body that is an object, \<open>read_settings\<close> the four lines on the body
  of a request. \<^verbatim>\<open>parseFloat\<close> of a raw field is a parameter, any function from the
  raw field to a number.
\<close>

record form =
  f_fps :: "string option"
  f_scale :: "string option"
  f_startTime :: "string option"
  f_duration :: "string option"

record settings =
  fps :: jsnum
  scale :: jsnum
  startTime :: jsnum
  duration :: jsnum

definition normalize :: "(string option \<Rightarrow> jsnum) \<Rightarrow> form \<Rightarrow> settings" where
  "normalize parseFloat body =
     \<lparr> fps = Math_max (Num 5) (Math_min (Num 30) (js_or (parseInt (f_fps body)) (Num 15))),
       scale = Math_max (Num 240) (Math_min (Num 1920) (js_or (parseInt (f_scale body)) (Num 480))),
       startTime = Math_max (Num 0) (js_or (parseFloat (f_startTime body)) (Num 0)),
       duration = Math_max (Num 0) (js_or (parseFloat (f_duration body)) (Num 0)) \<rparr>"

datatype js_error = TypeError string

definition read_settings :: "(string option \<Rightarrow> jsnum) \<Rightarrow> form option \<Rightarrow> js_error + settings" where
  "read_settings parseFloat body =
     (case body of
        None \<Rightarrow> Inl (TypeError ''Cannot read properties of undefined (reading 'fps')'')
      | Some b \<Rightarrow> Inr (normalize parseFloat b))"

text \<open>
  The specification's reading of one field: the default replaces the parsed value only
  when parsing fails, and the result is clamped to the range.
\<close>

definition spec_field :: "jsnum \<Rightarrow> jsnum \<Rightarrow> jsnum \<Rightarrow> jsnum \<Rightarrow> jsnum" where
  "spec_field lo hi dflt parsed =
     (let v = (if parsed = NaN then dflt else parsed)
      in if js_le v lo then lo else if js_le hi v then hi else v)"

text \<open>A stand-in for \<^verbatim>\<open>parseFloat\<close> on absent fields, used to run the model.\<close>

definition parseFloat_absent :: "string option \<Rightarrow> jsnum" where
  "parseFloat_absent raw = NaN"

section \<open>Failure classification of the conversion (server.js, lines 119-127)\<close>

text \<open>
  \<^verbatim>\<open>
  let errorMessage = "FFmpeg processing failed";
  if (stderr.includes("Invalid data found")) {
    errorMessage = "Invalid or corrupted video file";
  } else if (stderr.includes("No such file")) {
    errorMessage = "File not found or access denied";
  } else if (stderr.includes("Permission denied")) {
    errorMessage = "Permission denied accessing file";
  }
  \<close>
\<close>

definition errorMessage :: "string \<Rightarrow> string" where
  "errorMessage stderr =
     (if str_includes stderr ''Invalid data found'' then ''Invalid or corrupted video file''
      else if str_includes stderr ''No such file'' then ''File not found or access denied''
      else if str_includes stderr ''Permission denied'' then ''Permission denied accessing file''
      else ''FFmpeg processing failed'')"

text \<open>
  The specification's reading: a table of (phrase, message) in priority order, searched
  for the first phrase that occurs somewhere in the text.
\<close>

definition occurs_in :: "string \<Rightarrow> string \<Rightarrow> bool" where
  "occurs_in pat s \<longleftrightarrow> (\<exists>before after. s = before @ pat @ after)"

definition spec_priority :: "(string \<times> string) list" where
  "spec_priority =
     [(''Invalid data found'', ''Invalid or corrupted video file''),
      (''No such file'', ''File not found or access denied''),
      (''Permission denied'', ''Permission denied accessing file'')]"

fun spec_first_match :: "(string \<times> string) list \<Rightarrow> string \<Rightarrow> string" where
  "spec_first_match [] s = ''FFmpeg processing failed''"
| "spec_first_match ((pat, msg) # rest) s =
     (if occurs_in pat s then msg else spec_first_match rest s)"

section \<open>Requests, responses and the file system\<close>

text \<open>
  The handlers are modelled by explicit state passing. The state holds the files of the
  temporary directory with their sizes, every \<^verbatim>\<open>fs.unlinkSync\<close> call in order, whether
  the response headers have gone out, every reply the handler has issued, in order, and
  the errors thrown out of the handler's callbacks.
  \<^verbatim>\<open>fs.unlinkSync\<close> is called only on a path that \<^verbatim>\<open>fs.existsSync\<close> has just found; it
  is taken to succeed.
\<close>

record upload =
  u_name :: string
  u_size :: nat

record request =
  video :: "upload option"
  body :: "form option"

record video_info =
  i_duration :: jsnum
  i_width :: "jsnum option"
  i_height :: "jsnum option"
  i_fps :: "jsnum option"
  i_bitrate :: "jsnum option"
  i_filename :: string
  i_fileSize :: nat

datatype reply =
    Json nat string "string option"
  | Info video_info
  | Pipe string nat path

record world =
  files :: "path \<rightharpoonup> nat"
  unlinked :: "path list"
  headersSent :: bool
  calls :: "reply list"
  thrown :: "string list"

text \<open>
  \<^verbatim>\<open>res.status(code).json({ error, details })\<close> and \<^verbatim>\<open>res.json(info)\<close>. The call
  is recorded in \<open>calls\<close>. When the headers have gone out already, the reply is not
  delivered: the call throws \<^verbatim>\<open>ERR_HTTP_HEADERS_SENT\<close>, recorded in \<open>thrown\<close>.
\<close>

definition res_send :: "reply \<Rightarrow> world \<Rightarrow> world" where
  "res_send r w =
     (if headersSent w
      then w\<lparr>calls := calls w @ [r], thrown := thrown w @ [''ERR_HTTP_HEADERS_SENT'']\<rparr>
      else w\<lparr>headersSent := True, calls := calls w @ [r]\<rparr>)"

definition res_json :: "nat \<Rightarrow> string \<Rightarrow> string option \<Rightarrow> world \<Rightarrow> world" where
  "res_json code msg details w = res_send (Json code msg details) w"

definition res_info :: "video_info \<Rightarrow> world \<Rightarrow> world" where
  "res_info info w = res_send (Info info) w"

definition existsSync :: "path \<Rightarrow> world \<Rightarrow> bool" where
  "existsSync p w \<longleftrightarrow> files w p \<noteq> None"

definition unlinkSync :: "path \<Rightarrow> world \<Rightarrow> world" where
  "unlinkSync p w = w\<lparr>files := (files w)(p := None), unlinked := unlinked w @ [p]\<rparr>"

text \<open>
  What the handler does not decide: the path of the ffmpeg binary, the temporary
  directory, the clock, the run mode, whether \<^verbatim>\<open>video.mv\<close> rejects (and with which
  message), how the child process ends, what it wrote to its output and error streams,
  the size of the file it left at the output path (if any), and how streaming the
  result ends.
\<close>

datatype child_end = Exited nat | Killed string

datatype stream_end = Stream_end | Stream_error bool

record env =
  ffmpegPath :: path
  tempDir :: path
  now :: nat
  development :: bool
  mv_error :: "string option"
  child_ending :: child_end
  child_stdout :: string
  child_stderr :: string
  child_output :: "nat option"
  streaming :: stream_end

text \<open>The error \<^verbatim>\<open>exec\<close> passes to its callback: null only after exit code 0.\<close>

definition exec_err :: "child_end \<Rightarrow> child_end option" where
  "exec_err ending = (if ending = Exited 0 then None else Some ending)"

text \<open>
  \<^verbatim>\<open>exec\<close> runs the command line in a shell and passes what arrived on the shell's
  output and error streams to the callback. A command line that ends in \<^verbatim>\<open>2>&1\<close> sends
  the child's error stream into the output stream, so that nothing arrives on the
  error stream; how the two interleave is not modelled, the error text is put last.
\<close>

definition stderr_to_stdout :: "string \<Rightarrow> bool" where
  "stderr_to_stdout command \<longleftrightarrow> suffix '' 2>&1'' command"

definition exec_streams :: "string \<Rightarrow> string \<Rightarrow> string \<Rightarrow> string \<times> string" where
  "exec_streams command out err = (if stderr_to_stdout command then (out @ err, []) else (out, err))"

section \<open>The conversion endpoint (server.js, lines 44-221)\<close>

text \<open>
  \<^verbatim>\<open>
  function cleanup() {
    try {
      if (inputPath && fs.existsSync(inputPath)) { fs.unlinkSync(inputPath); }
      if (outputPath && fs.existsSync(outputPath)) { fs.unlinkSync(outputPath); }
    } catch (cleanupErr) { ... }
  }
  \<close>
\<close>

definition cleanup :: "path option \<Rightarrow> path option \<Rightarrow> world \<Rightarrow> world" where
  "cleanup inputPath outputPath w =
     (let w1 = (case inputPath of
                  Some p \<Rightarrow> if existsSync p w then unlinkSync p w else w
                | None \<Rightarrow> w)
      in case outputPath of
           Some q \<Rightarrow> if existsSync q w1 then unlinkSync q w1 else w1
         | None \<Rightarrow> w1)"

text \<open>
  The handler of the child's \<^verbatim>\<open>exit\<close> event (lines 186-196): on SIGTERM it cleans up and,
  if no headers have gone out, replies that processing timed out.
\<close>

definition on_exit :: "path \<Rightarrow> path \<Rightarrow> child_end \<Rightarrow> world \<Rightarrow> world" where
  "on_exit inputPath outputPath ending w =
     (if ending = Killed ''SIGTERM'' then
        (let w1 = cleanup (Some inputPath) (Some outputPath) w
         in if \<not> headersSent w1
            then res_json 500 ''Processing timed out - video may be too large or complex'' None w1
            else w1)
      else w)"

text \<open>
  Streaming the result (lines 160-182): the three headers are set and the file is piped.
  At \<^verbatim>\<open>end\<close> the handler cleans up. At \<^verbatim>\<open>error\<close> it cleans up and, if no headers have
  gone out, replies with an error; \<open>Stream_error sent\<close> says whether data, and with it
  the headers, had gone out before the error.
\<close>

definition send_gif :: "env \<Rightarrow> path \<Rightarrow> path \<Rightarrow> nat \<Rightarrow> world \<Rightarrow> world" where
  "send_gif e inputPath outputPath bytes w =
     (let w1 = w\<lparr>calls := calls w @ [Pipe (''converted-'' @ show_nat (now e) @ ''.gif'') bytes outputPath]\<rparr>
      in case streaming e of
           Stream_end \<Rightarrow> cleanup (Some inputPath) (Some outputPath) (w1\<lparr>headersSent := True\<rparr>)
         | Stream_error sent \<Rightarrow>
             (let w2 = cleanup (Some inputPath) (Some outputPath) (w1\<lparr>headersSent := headersSent w1 \<or> sent\<rparr>)
              in if \<not> headersSent w2 then res_json 500 ''Failed to send GIF file'' None w2 else w2))"

text \<open>The callback of \<^verbatim>\<open>exec\<close> (lines 114-183).\<close>

definition gif_exec_callback ::
  "env \<Rightarrow> path \<Rightarrow> path \<Rightarrow> child_end option \<Rightarrow> string \<Rightarrow> string \<Rightarrow> world \<Rightarrow> world" where
  "gif_exec_callback e inputPath outputPath err stdout stderr w =
     (if err \<noteq> None then
        res_json 500 (errorMessage stderr) (if development e then Some stderr else None) w
      else case files w outputPath of
             None \<Rightarrow> res_json 500 ''GIF generation failed - no output file created'' None w
           | Some bytes \<Rightarrow>
               if bytes = 0 then res_json 500 ''GIF generation failed - empty output file'' None w
               else send_gif e inputPath outputPath bytes w)"

text \<open>
  The \<^verbatim>\<open>catch\<close> block (lines 197-204).
\<close>

definition gif_catch :: "env \<Rightarrow> path option \<Rightarrow> path option \<Rightarrow> string \<Rightarrow> world \<Rightarrow> world" where
  "gif_catch e inputPath outputPath message w =
     res_json 500 ''Internal server error'' (if development e then Some message else None)
       (cleanup inputPath outputPath w)"

text \<open>
  The child process: when it ends, a file of the given size is at the output path if it
  wrote one; Node emits \<^verbatim>\<open>exit\<close> first and then calls the callback of \<^verbatim>\<open>exec\<close>.
\<close>

definition child_writes :: "path \<Rightarrow> nat option \<Rightarrow> world \<Rightarrow> world" where
  "child_writes outputPath out w =
     (case out of None \<Rightarrow> w | Some n \<Rightarrow> w\<lparr>files := (files w)(outputPath \<mapsto> n)\<rparr>)"

definition gif_child_done :: "env \<Rightarrow> path \<Rightarrow> path \<Rightarrow> world \<Rightarrow> world" where
  "gif_child_done e inputPath outputPath w =
     gif_exec_callback e inputPath outputPath (exec_err (child_ending e)) (child_stdout e) (child_stderr e)
       (on_exit inputPath outputPath (child_ending e)
         (child_writes outputPath (child_output e) w))"

text \<open>
  The handler of \<^verbatim>\<open>POST /gif\<close>, from the request to the last event of the job. The
  settings (lines 67-73) are read after the paths are set and before the upload is
  moved; reading them throws when the body is undefined, which the \<^verbatim>\<open>catch\<close> block
  answers. Their values and the command line (lines 88-111) do not change which branch
  is taken: how the child ends is an input here. The command line ends in the quoted
  output path, so the child's streams reach the callback as written.
\<close>

definition gif_handler :: "env \<Rightarrow> request \<Rightarrow> world \<Rightarrow> world" where
  "gif_handler e req w =
     (case video req of
        None \<Rightarrow> res_json 400 ''No video uploaded'' None w
      | Some v \<Rightarrow>
          if \<not> isValidVideoFile (u_name v) then res_json 400 ''Invalid video file format'' None w
          else
            (let inputPath = gif_inputPath (tempDir e) (now e) (u_name v);
                 outputPath = gif_outputPath (tempDir e) (now e)
             in case body req of
                  None \<Rightarrow>
                    gif_catch e (Some inputPath) (Some outputPath)
                      ''Cannot read properties of undefined (reading 'fps')'' w
                | Some b \<Rightarrow>
                    (case mv_error e of
                       Some message \<Rightarrow> gif_catch e (Some inputPath) (Some outputPath) message w
                     | None \<Rightarrow>
                         (let w1 = w\<lparr>files := (files w)(inputPath \<mapsto> u_size v)\<rparr>
                          in if \<not> existsSync inputPath w1 \<or> files w1 inputPath = Some 0
                             then gif_catch e (Some inputPath) (Some outputPath)
                                    ''Failed to save uploaded file or file is empty'' w1
                             else gif_child_done e inputPath outputPath w1))))"

section \<open>The metadata endpoint (server.js, lines 224-308)\<close>

text \<open>
  A regular expression is searched from the left: the match is the one at the first
  position where the pattern matches. Each pattern below is given by its match at a
  fixed position.
\<close>

fun first_match :: "(string \<Rightarrow> 'a option) \<Rightarrow> string \<Rightarrow> 'a option" where
  "first_match m [] = m []"
| "first_match m (c # cs) = (case m (c # cs) of Some r \<Rightarrow> Some r | None \<Rightarrow> first_match m cs)"

definition lit :: "string \<Rightarrow> string \<Rightarrow> string option" where
  "lit p s = (if prefix p s then Some (drop (length p) s) else None)"

definition take_digits :: "nat \<Rightarrow> string \<Rightarrow> (string \<times> string) option" where
  "take_digits n s =
     (if n \<le> length s \<and> list_all is_digit (take n s) then Some (take n s, drop n s) else None)"

definition digits1 :: "string \<Rightarrow> (string \<times> string) option" where
  "digits1 s = (if takeWhile is_digit s = [] then None
                else Some (takeWhile is_digit s, dropWhile is_digit s))"

text \<open>\<^verbatim>\<open>/Duration: (\d{2}):(\d{2}):(\d{2})\.(\d{2})/\<close>\<close>

definition duration_at :: "string \<Rightarrow> (string \<times> string \<times> string \<times> string) option" where
  "duration_at s = do {
     r0 \<leftarrow> lit ''Duration: '' s;
     (h, r1) \<leftarrow> take_digits 2 r0;
     r2 \<leftarrow> lit '':'' r1;
     (m, r3) \<leftarrow> take_digits 2 r2;
     r4 \<leftarrow> lit '':'' r3;
     (sec, r5) \<leftarrow> take_digits 2 r4;
     r6 \<leftarrow> lit ''.'' r5;
     (hs, r7) \<leftarrow> take_digits 2 r6;
     Some (h, m, sec, hs) }"

text \<open>
  \<^verbatim>\<open>/(\d{3,4})x(\d{3,4})/\<close>: each group takes four digits if it can and three otherwise;
  the first falls back to three when no match follows four.
\<close>

definition resolution_with :: "nat \<Rightarrow> string \<Rightarrow> (string \<times> string) option" where
  "resolution_with n s = do {
     (w, r1) \<leftarrow> take_digits n s;
     r2 \<leftarrow> lit ''x'' r1;
     (h, r3) \<leftarrow> (case take_digits 4 r2 of Some g \<Rightarrow> Some g | None \<Rightarrow> take_digits 3 r2);
     Some (w, h) }"

definition resolution_at :: "string \<Rightarrow> (string \<times> string) option" where
  "resolution_at s = (case resolution_with 4 s of Some r \<Rightarrow> Some r | None \<Rightarrow> resolution_with 3 s)"

text \<open>
  \<^verbatim>\<open>/(\d+(?:\.\d+)?)\s*fps/\<close>: a run of digits can match only in full, as a digit that it
  gave back could be matched by nothing that follows; likewise the white space.
\<close>

definition fps_at :: "string \<Rightarrow> string option" where
  "fps_at s = do {
     (d1, r1) \<leftarrow> digits1 s;
     (fraction, r2) \<leftarrow> Some (case lit ''.'' r1 \<bind> digits1 of
                          Some (d2, r) \<Rightarrow> (''.'' @ d2, r)
                        | None \<Rightarrow> ([], r1));
     r3 \<leftarrow> lit ''fps'' (dropWhile is_space r2);
     Some (d1 @ fraction) }"

text \<open>\<^verbatim>\<open>/bitrate: (\d+)\s*kb\/s/\<close>\<close>

definition bitrate_at :: "string \<Rightarrow> string option" where
  "bitrate_at s = do {
     r0 \<leftarrow> lit ''bitrate: '' s;
     (d, r1) \<leftarrow> digits1 r0;
     r2 \<leftarrow> lit ''kb/s'' (dropWhile is_space r1);
     Some d }"

text \<open>
  \<^verbatim>\<open>parseFloat\<close> of digits with an optional fraction, as the frame-rate pattern
  captures them: the decimal value, rounded to binary64.
\<close>

definition decimal_value :: "string \<Rightarrow> rat" where
  "decimal_value s =
     (let whole = takeWhile is_digit s; fraction = drop (Suc (length whole)) s
      in of_int (digits_value 10 whole) + of_int (digits_value 10 fraction) / 10 ^ length fraction)"

definition parseFloat_decimal :: "string \<Rightarrow> jsnum" where
  "parseFloat_decimal s = double_of (decimal_value s)"

text \<open>
  \<^verbatim>\<open>
  const hours = parseInt(durationMatch[1]);
  const minutes = parseInt(durationMatch[2]);
  const seconds = parseInt(durationMatch[3]);
  const milliseconds = parseInt(durationMatch[4]);
  const totalSeconds = hours * 3600 + minutes * 60 + seconds + milliseconds / 100;
  \<close>
\<close>

definition totalSeconds :: "string \<times> string \<times> string \<times> string \<Rightarrow> jsnum" where
  "totalSeconds g =
     (case g of (h, m, sec, hs) \<Rightarrow>
        (let hours = parseInt_str h;
             minutes = parseInt_str m;
             seconds = parseInt_str sec;
             milliseconds = parseInt_str hs
         in js_add (js_add (js_add (js_times hours 3600) (js_times minutes 60)) seconds)
              (js_over milliseconds 100)))"

text \<open>The parser: the body of \<^verbatim>\<open>if (stderr) { ... }\<close> (lines 255-285).\<close>

definition parse_info :: "upload \<Rightarrow> string \<Rightarrow> video_info option" where
  "parse_info v stderr =
     (let durationMatch = first_match duration_at stderr;
          resolutionMatch = first_match resolution_at stderr;
          fpsMatch = first_match fps_at stderr;
          bitrateMatch = first_match bitrate_at stderr
      in case durationMatch of
           Some g \<Rightarrow>
             Some \<lparr> i_duration = totalSeconds g,
                    i_width = map_option (\<lambda>r. parseInt_str (fst r)) resolutionMatch,
                    i_height = map_option (\<lambda>r. parseInt_str (snd r)) resolutionMatch,
                    i_fps = map_option parseFloat_decimal fpsMatch,
                    i_bitrate = map_option parseInt_str bitrateMatch,
                    i_filename = u_name v,
                    i_fileSize = u_size v \<rparr>
         | None \<Rightarrow> None)"

text \<open>The callback of \<^verbatim>\<open>exec\<close> (lines 248-290).\<close>

definition info_exec_callback ::
  "path \<Rightarrow> upload \<Rightarrow> child_end option \<Rightarrow> string \<Rightarrow> string \<Rightarrow> world \<Rightarrow> world" where
  "info_exec_callback inputPath v err stdout stderr w =
     (let w1 = (if existsSync inputPath w then unlinkSync inputPath w else w)
      in if stderr \<noteq> [] then
           (case parse_info v stderr of
              Some info \<Rightarrow> res_info info w1
            | None \<Rightarrow> res_json 500 ''Could not extract video information'' None w1)
         else res_json 500 ''FFmpeg info extraction failed'' None w1)"

text \<open>
  \<^verbatim>\<open>
  const command = `${escapeShellPath(ffmpegPath)} -i ${escapeShellPath(inputPath)} -f null - 2>&1`;
  \<close>
\<close>

definition info_command :: "path \<Rightarrow> path \<Rightarrow> string" where
  "info_command ffmpeg inputPath =
     escapeShellPath ffmpeg @ '' -i '' @ escapeShellPath inputPath @ '' -f null - 2>&1''"

text \<open>
  The handler of \<^verbatim>\<open>POST /video-info\<close>. The callback gets the streams as \<^verbatim>\<open>exec\<close>
  delivers them for the command line.
\<close>

definition info_handler :: "env \<Rightarrow> request \<Rightarrow> world \<Rightarrow> world" where
  "info_handler e req w =
     (case video req of
        None \<Rightarrow> res_json 400 ''No video uploaded'' None w
      | Some v \<Rightarrow>
          if \<not> isValidVideoFile (u_name v) then res_json 400 ''Invalid video file format'' None w
          else
            (let inputPath = info_inputPath (tempDir e) (now e) (u_name v)
             in case mv_error e of
                  Some message \<Rightarrow>
                    res_json 500 ''Internal server error '' (if development e then Some message else None)
                      (if existsSync inputPath w then unlinkSync inputPath w else w)
                | None \<Rightarrow>
                    (let streams = exec_streams (info_command (ffmpegPath e) inputPath)
                                     (child_stdout e) (child_stderr e)
                     in info_exec_callback inputPath v (exec_err (child_ending e))
                          (fst streams) (snd streams)
                          (w\<lparr>files := (files w)(inputPath \<mapsto> u_size v)\<rparr>))))"

section \<open>The specification's reading of the metadata patterns\<close>

text \<open>
  What it means for each pattern to match at the start of a text, with the groups it
  captures, said by the shape of the text alone. A group of three or four digits takes
  four when it can: the second group of the resolution has three digits only when no
  digit follows.
\<close>

definition two_digits :: "string \<Rightarrow> bool" where
  "two_digits g \<longleftrightarrow> length g = 2 \<and> list_all is_digit g"

definition digits_3_4 :: "string \<Rightarrow> bool" where
  "digits_3_4 g \<longleftrightarrow> (length g = 3 \<or> length g = 4) \<and> list_all is_digit g"

definition digit_run :: "string \<Rightarrow> bool" where
  "digit_run g \<longleftrightarrow> g \<noteq> [] \<and> list_all is_digit g"

definition no_digit_next :: "string \<Rightarrow> bool" where
  "no_digit_next r \<longleftrightarrow> (case r of [] \<Rightarrow> True | c # _ \<Rightarrow> \<not> is_digit c)"

definition spec_duration :: "string \<Rightarrow> string \<times> string \<times> string \<times> string \<Rightarrow> bool" where
  "spec_duration t g \<longleftrightarrow>
     (case g of (h, m, s, c) \<Rightarrow>
        two_digits h \<and> two_digits m \<and> two_digits s \<and> two_digits c
        \<and> (\<exists>rest. t = ''Duration: '' @ h @ '':'' @ m @ '':'' @ s @ ''.'' @ c @ rest))"

definition spec_resolution :: "string \<Rightarrow> string \<times> string \<Rightarrow> bool" where
  "spec_resolution t g \<longleftrightarrow>
     (case g of (w, h) \<Rightarrow>
        digits_3_4 w \<and> digits_3_4 h
        \<and> (\<exists>rest. t = w @ ''x'' @ h @ rest \<and> (length h = 3 \<longrightarrow> no_digit_next rest)))"

definition spec_fps :: "string \<Rightarrow> string \<Rightarrow> bool" where
  "spec_fps t g \<longleftrightarrow>
     (\<exists>d1 fraction ws rest.
        t = d1 @ fraction @ ws @ ''fps'' @ rest \<and> g = d1 @ fraction \<and> digit_run d1
        \<and> (fraction = [] \<or> (\<exists>d2. fraction = ''.'' @ d2 \<and> digit_run d2))
        \<and> list_all is_space ws)"

definition spec_bitrate :: "string \<Rightarrow> string \<Rightarrow> bool" where
  "spec_bitrate t d \<longleftrightarrow>
     digit_run d
     \<and> (\<exists>ws rest. t = ''bitrate: '' @ d @ ws @ ''kb/s'' @ rest \<and> list_all is_space ws)"

text \<open>
  The first match of a pattern in a text: none when the pattern matches at no position,
  and otherwise the groups at the first position where it matches.
\<close>

definition spec_first :: "(string \<Rightarrow> 'a \<Rightarrow> bool) \<Rightarrow> string \<Rightarrow> 'a option \<Rightarrow> bool" where
  "spec_first pat s r \<longleftrightarrow>
     (case r of
        None \<Rightarrow> \<forall>i\<le>length s. \<forall>g. \<not> pat (drop i s) g
      | Some g \<Rightarrow> \<exists>i\<le>length s. pat (drop i s) g \<and> (\<forall>j<i. \<forall>g'. \<not> pat (drop j s) g'))"

text \<open>
  The duration of the groups hours, minutes, seconds and hundredths: the whole seconds,
  an integer, plus hundredths over 100, the quotient and the sum in binary64.
\<close>

definition spec_seconds :: "string \<Rightarrow> string \<Rightarrow> string \<Rightarrow> string \<Rightarrow> jsnum" where
  "spec_seconds h m s c =
     js_add (Num (of_int (digits_value 10 h * 3600 + digits_value 10 m * 60 + digits_value 10 s)))
       (js_over (Num (of_int (digits_value 10 c))) 100)"

section \<open>Sample runs\<close>

text \<open>
  Inputs for running the model: an empty temporary directory with a fresh response, an
  upload of 1000 bytes named \<^verbatim>\<open>a.mp4\<close> with the form field fps = 10, and an
  environment in which the child exits with status 1 after an "Invalid data found"
  diagnostic, leaving no output file.
\<close>

definition fresh :: world where
  "fresh = \<lparr>files = Map.empty, unlinked = [], headersSent = False, calls = [], thrown = []\<rparr>"

definition upload_a :: request where
  "upload_a = \<lparr>video = Some \<lparr>u_name = ''a.mp4'', u_size = 1000\<rparr>,
                body = Some \<lparr>f_fps = Some ''10'', f_scale = None, f_startTime = None,
                              f_duration = None\<rparr>\<rparr>"

definition failing_run :: env where
  "failing_run = \<lparr>ffmpegPath = ''/app/node_modules/ffmpeg-static/ffmpeg'', tempDir = ''/tmp'', now = 1700000000000, development = False, mv_error = None,
                   child_ending = Exited 1, child_stdout = [],
                   child_stderr = ''a.mp4: Invalid data found when processing input'',
                   child_output = None, streaming = Stream_end\<rparr>"


section \<open>Substring search\<close>

lemma includes_iff: "str_includes s pat \<longleftrightarrow> (\<exists>before after. s = before @ pat @ after)"
proof (induction s)
  case Nil
  then show ?case by auto
next
  case (Cons c cs)
  show ?case
  proof
    assume "str_includes (c # cs) pat"
    then consider "prefix pat (c # cs)" | "str_includes cs pat" by auto
    then show "\<exists>before after. c # cs = before @ pat @ after"
    proof cases
      case 1
      then obtain after where "c # cs = pat @ after" by (auto simp: prefix_def)
      then have "c # cs = [] @ pat @ after" by simp
      then show ?thesis by blast
    next
      case 2
      with Cons.IH obtain before after where "cs = before @ pat @ after" by blast
      then have "c # cs = (c # before) @ pat @ after" by simp
      then show ?thesis by blast
    qed
  next
    assume "\<exists>before after. c # cs = before @ pat @ after"
    then obtain before after where eq: "c # cs = before @ pat @ after" by blast
    show "str_includes (c # cs) pat"
    proof (cases before)
      case Nil
      with eq have "prefix pat (c # cs)" by (simp add: prefix_def)
      then show ?thesis by simp
    next
      case (Cons b bs)
      with eq have "cs = bs @ pat @ after" by simp
      with Cons.IH have "str_includes cs pat" by blast
      then show ?thesis by simp
    qed
  qed
qed

lemma includes_occurs_in: "str_includes s pat = occurs_in pat s"
  by (simp add: includes_iff occurs_in_def)

section \<open>Classification is first-match-wins\<close>

text \<open>
  C4. The message chosen for a failed conversion is the one of the first phrase, in the
  order "Invalid data found", "No such file", "Permission denied", that occurs anywhere
  in the diagnostic text, and the generic message when none occurs; so a text with
  "Invalid data found" is classified as invalid input whatever else it contains.
\<close>

theorem errorMessage_first_match:
  "errorMessage stderr = spec_first_match spec_priority stderr
   \<and> (occurs_in ''Invalid data found'' stderr
        \<longrightarrow> errorMessage stderr = ''Invalid or corrupted video file'')
   \<and> (\<not> occurs_in ''Invalid data found'' stderr \<and> occurs_in ''No such file'' stderr
        \<longrightarrow> errorMessage stderr = ''File not found or access denied'')
   \<and> (\<not> occurs_in ''Invalid data found'' stderr \<and> \<not> occurs_in ''No such file'' stderr
        \<and> occurs_in ''Permission denied'' stderr
        \<longrightarrow> errorMessage stderr = ''Permission denied accessing file'')
   \<and> (\<not> occurs_in ''Invalid data found'' stderr \<and> \<not> occurs_in ''No such file'' stderr
        \<and> \<not> occurs_in ''Permission denied'' stderr
        \<longrightarrow> errorMessage stderr = ''FFmpeg processing failed'')"
  by (simp add: errorMessage_def spec_priority_def includes_occurs_in)

text \<open>
  Runs of C4, one for each outcome: a text that names all three phrases, one with the
  second and third, one with the third only, and one with none.
\<close>

theorem errorMessage_first_match_witness:
  "errorMessage ''Invalid data found; No such file; Permission denied''
     = ''Invalid or corrupted video file''
   \<and> errorMessage ''a.mp4: No such file or directory; Permission denied''
     = ''File not found or access denied''
   \<and> errorMessage ''a.mp4: Permission denied'' = ''Permission denied accessing file''
   \<and> errorMessage ''Conversion failed!'' = ''FFmpeg processing failed''"
proof -
  have "occurs_in ''Invalid data found'' ''Invalid data found; No such file; Permission denied''"
    by (simp add: includes_occurs_in [symmetric])
  then have first: "errorMessage ''Invalid data found; No such file; Permission denied''
                    = ''Invalid or corrupted video file''"
    using errorMessage_first_match [of "''Invalid data found; No such file; Permission denied''"]
    by blast
  have "\<not> occurs_in ''Invalid data found'' ''a.mp4: No such file or directory; Permission denied''"
    and "occurs_in ''No such file'' ''a.mp4: No such file or directory; Permission denied''"
    by (simp_all add: includes_occurs_in [symmetric])
  then have second: "errorMessage ''a.mp4: No such file or directory; Permission denied''
                     = ''File not found or access denied''"
    using errorMessage_first_match [of "''a.mp4: No such file or directory; Permission denied''"]
    by blast
  have "\<not> occurs_in ''Invalid data found'' ''a.mp4: Permission denied''"
    and "\<not> occurs_in ''No such file'' ''a.mp4: Permission denied''"
    and "occurs_in ''Permission denied'' ''a.mp4: Permission denied''"
    by (simp_all add: includes_occurs_in [symmetric])
  then have third: "errorMessage ''a.mp4: Permission denied'' = ''Permission denied accessing file''"
    using errorMessage_first_match [of "''a.mp4: Permission denied''"]
    by blast
  have "\<not> occurs_in ''Invalid data found'' ''Conversion failed!''"
    and "\<not> occurs_in ''No such file'' ''Conversion failed!''"
    and "\<not> occurs_in ''Permission denied'' ''Conversion failed!''"
    by (simp_all add: includes_occurs_in [symmetric])
  then have "errorMessage ''Conversion failed!'' = ''FFmpeg processing failed''"
    using errorMessage_first_match [of "''Conversion failed!''"]
    by blast
  with first second third show ?thesis by (simp only: simp_thms)
qed

section \<open>Conversion settings stay in range\<close>

lemma js_or_not_NaN: "js_or x (Num d) \<noteq> NaN"
  by (simp add: js_or_def truthy_def)

lemma clamp_in_range:
  assumes "x \<noteq> NaN" and "lo \<le> hi"
  shows "js_le (Num lo) (Math_max (Num lo) (Math_min (Num hi) x))
         \<and> js_le (Math_max (Num lo) (Math_min (Num hi) x)) (Num hi)"
  using assms by (cases x) (auto simp: Math_max_def Math_min_def)

lemma max_zero_nonneg:
  assumes "x \<noteq> NaN"
  shows "js_le (Num 0) (Math_max (Num 0) x)"
  using assms by (cases x) (auto simp: Math_max_def)

text \<open>
  On a body that is an object, whatever the form fields hold and whatever number
  \<^verbatim>\<open>parseFloat\<close> makes of them, the settings are numbers (not NaN) with fps in [5,30],
  scale in [240,1920] and start time and duration at least 0.
\<close>

lemma normalize_in_range:
  "js_le (Num 5) (fps (normalize parseFloat b)) \<and> js_le (fps (normalize parseFloat b)) (Num 30)
   \<and> js_le (Num 240) (scale (normalize parseFloat b))
   \<and> js_le (scale (normalize parseFloat b)) (Num 1920)
   \<and> js_le (Num 0) (startTime (normalize parseFloat b))
   \<and> js_le (Num 0) (duration (normalize parseFloat b))"
proof -
  have "(5::rat) \<le> 30" and "(240::rat) \<le> 1920" by simp_all
  then show ?thesis
    unfolding normalize_def
    using clamp_in_range [OF js_or_not_NaN] max_zero_nonneg [OF js_or_not_NaN]
    by simp
qed

section \<open>A parsed zero takes the default\<close>

text \<open>
  C6, as the code has it. fps and scale are \<^verbatim>\<open>parseInt\<close> of the field; the default
  (15, 480) is taken when the parse fails, the field is absent, or the parsed number is
  0, and any other parsed number is clamped to [5,30] and [240,1920]. Start time and
  duration are \<^verbatim>\<open>parseFloat\<close> of the field, 0 when the parse fails, and raised to 0
  when below.
\<close>

theorem normalize_default_on_zero:
  "fps (normalize parseFloat b) =
     (if parseInt (f_fps b) = Num 0 then Num 15
      else spec_field (Num 5) (Num 30) (Num 15) (parseInt (f_fps b)))
   \<and> scale (normalize parseFloat b) =
     (if parseInt (f_scale b) = Num 0 then Num 480
      else spec_field (Num 240) (Num 1920) (Num 480) (parseInt (f_scale b)))
   \<and> startTime (normalize parseFloat b) =
     (if parseFloat (f_startTime b) = NaN \<or> js_le (parseFloat (f_startTime b)) (Num 0) then Num 0
      else parseFloat (f_startTime b))
   \<and> duration (normalize parseFloat b) =
     (if parseFloat (f_duration b) = NaN \<or> js_le (parseFloat (f_duration b)) (Num 0) then Num 0
      else parseFloat (f_duration b))"
proof -
  have a: "Math_max (Num lo) (Math_min (Num hi) (js_or x (Num d))) =
           (if x = Num 0 then Num d else spec_field (Num lo) (Num hi) (Num d) x)"
    if "lo \<le> d" "d \<le> hi" for lo hi d x
    using that
    by (cases x) (auto simp: Math_max_def Math_min_def spec_field_def js_or_def truthy_def Let_def)
  have b: "Math_max (Num 0) (js_or x (Num 0)) = (if x = NaN \<or> js_le x (Num 0) then Num 0 else x)" for x
    by (cases x) (auto simp: Math_max_def js_or_def truthy_def)
  show ?thesis
    unfolding normalize_def by (simp add: a b)
qed

text \<open>A run of it: fps "0" becomes 15, scale "100000" becomes 1920.\<close>

theorem normalize_default_on_zero_witness:
  "fps (normalize parseFloat_absent
      \<lparr>f_fps = Some ''0'', f_scale = Some ''100000'', f_startTime = None, f_duration = None\<rparr>) = Num 15
   \<and> scale (normalize parseFloat_absent
      \<lparr>f_fps = Some ''0'', f_scale = Some ''100000'', f_startTime = None, f_duration = None\<rparr>) = Num 1920"
proof -
  have "parseInt (Some ''0'') = Num 0" by code_simp
  moreover have "parseInt (Some ''100000'') = Num 100000" by code_simp
  moreover have "spec_field (Num 240) (Num 1920) (Num 480) (Num 100000) = Num 1920"
    by (simp add: spec_field_def)
  ultimately show ?thesis
    using normalize_default_on_zero [of parseFloat_absent
      "\<lparr>f_fps = Some ''0'', f_scale = Some ''100000'', f_startTime = None, f_duration = None\<rparr>"]
    by simp
qed

text \<open>
  C6 as stated fails at the field fps = "0": it parses to 0, which clamped to [5,30] is
  5, but the code yields the default 15.
\<close>

theorem normalize_zero_counterexample:
  "parseInt (Some ''0'') = Num 0
   \<and> fps (normalize parseFloat_absent
        \<lparr>f_fps = Some ''0'', f_scale = None, f_startTime = None, f_duration = None\<rparr>) = Num 15
   \<and> spec_field (Num 5) (Num 30) (Num 15) (parseInt (Some ''0'')) = Num 5
   \<and> fps (normalize parseFloat_absent
        \<lparr>f_fps = Some ''0'', f_scale = None, f_startTime = None, f_duration = None\<rparr>)
      \<noteq> spec_field (Num 5) (Num 30) (Num 15) (parseInt (Some ''0''))"
  by code_simp

section \<open>Temporary paths of different time stamps\<close>

lemma below_ten: "d < 10 \<Longrightarrow> d = 0 \<or> d = 1 \<or> d = 2 \<or> d = 3 \<or> d = 4 \<or> d = 5 \<or> d = 6 \<or> d = 7 \<or> d = 8 \<or> d = (9::nat)"
  by arith

lemma digit_char_is_digit:
  assumes "d < 10"
  shows "is_digit (digit_char d)"
  using below_ten [OF assms] by (elim disjE; simp add: digit_char_def is_digit_def)

lemma digit_val_digit_char:
  assumes "d < 10"
  shows "digit_val 10 (digit_char d) = int d"
  using below_ten [OF assms] by (elim disjE; simp add: digit_char_def digit_val_def radix_digit_def)

lemma show_nat_digits: "list_all is_digit (show_nat n)"
proof (induction n rule: show_nat.induct)
  case (1 n)
  show ?case
  proof (cases "n < 10")
    case True
    then show ?thesis by (simp add: show_nat.simps [of n] digit_char_is_digit)
  next
    case False
    with 1 show ?thesis by (simp add: show_nat.simps [of n] digit_char_is_digit)
  qed
qed

lemma digits_value_snoc: "digits_value r (ds @ [c]) = digits_value r ds * r + digit_val r c"
  by (simp add: digits_value_def)

lemma digits_value_show_nat: "digits_value 10 (show_nat n) = int n"
proof (induction n rule: show_nat.induct)
  case (1 n)
  show ?case
  proof (cases "n < 10")
    case True
    then show ?thesis
      by (simp add: show_nat.simps [of n] digits_value_def digit_val_digit_char)
  next
    case False
    with 1 have "digits_value 10 (show_nat (n div 10)) = int (n div 10)" by simp
    moreover have "int (n div 10) * 10 + int (n mod 10) = int n" by presburger
    ultimately show ?thesis
      using False by (simp add: show_nat.simps [of n] digits_value_snoc digit_val_digit_char)
  qed
qed

lemma show_nat_inj: "show_nat a = show_nat b \<Longrightarrow> a = b"
proof -
  assume "show_nat a = show_nat b"
  then have "digits_value 10 (show_nat a) = digits_value 10 (show_nat b)" by simp
  then show "a = b" by (simp add: digits_value_show_nat)
qed

lemma takeWhile_run: "list_all P ds \<Longrightarrow> \<not> P c \<Longrightarrow> takeWhile P (ds @ c # r) = ds"
  by (induction ds) auto

lemma stamp_unique:
  assumes "show_nat a @ c # r = show_nat b @ c' # r'" and "\<not> is_digit c" and "\<not> is_digit c'"
  shows "a = b"
proof -
  have "takeWhile is_digit (show_nat a @ c # r) = show_nat a"
    and "takeWhile is_digit (show_nat b @ c' # r') = show_nat b"
    using assms(2,3) by (simp_all add: takeWhile_run show_nat_digits)
  with assms(1) have "show_nat a = show_nat b" by simp
  then show ?thesis by (rule show_nat_inj)
qed

lemma not_digit_sep: "\<not> is_digit (CHR ''-'')" "\<not> is_digit (CHR ''.'')"
  by (simp_all add: is_digit_def)

lemma gif_inputPath_stamp:
  assumes "gif_inputPath t a n = gif_inputPath t b n'"
  shows "a = b"
proof -
  from assms have "show_nat a @ CHR ''-'' # n = show_nat b @ CHR ''-'' # n'"
    by (simp add: gif_inputPath_def path_join_def)
  then show ?thesis by (rule stamp_unique) (rule not_digit_sep)+
qed

lemma info_inputPath_stamp:
  assumes "info_inputPath t a n = info_inputPath t b n'"
  shows "a = b"
proof -
  from assms have "show_nat a @ CHR ''-'' # n = show_nat b @ CHR ''-'' # n'"
    by (simp add: info_inputPath_def path_join_def)
  then show ?thesis by (rule stamp_unique) (rule not_digit_sep)+
qed

lemma gif_outputPath_stamp:
  assumes "gif_outputPath t a = gif_outputPath t b"
  shows "a = b"
proof -
  from assms have "show_nat a @ CHR ''.'' # ''gif'' = show_nat b @ CHR ''.'' # ''gif''"
    by (simp add: gif_outputPath_def path_join_def)
  then show ?thesis by (rule stamp_unique) (rule not_digit_sep)+
qed

lemma paths_of_different_kind:
  "gif_inputPath t a n \<noteq> gif_outputPath t b"
  "gif_inputPath t a n \<noteq> info_inputPath t b n'"
  "info_inputPath t a n \<noteq> gif_outputPath t b"
  by (simp_all add: gif_inputPath_def gif_outputPath_def info_inputPath_def path_join_def)

text \<open>
  C9, as the code has it. Two jobs served at different time stamps, for uploads whose
  names hold no slash, have no temporary path in common.
\<close>

theorem job_paths_disjoint:
  assumes "j_timestamp j1 \<noteq> j_timestamp j2"
    and "CHR ''/'' \<notin> set (j_name j1)" and "CHR ''/'' \<notin> set (j_name j2)"
  shows "job_paths dir j1 \<inter> job_paths dir j2 = {}"
proof -
  have input_ne: "gif_inputPath dir (j_timestamp j1) n \<noteq> gif_inputPath dir (j_timestamp j2) n'" for n n'
    using assms(1) gif_inputPath_stamp by blast
  have info_ne: "info_inputPath dir (j_timestamp j1) n \<noteq> info_inputPath dir (j_timestamp j2) n'" for n n'
    using assms(1) info_inputPath_stamp by blast
  have output_ne: "gif_outputPath dir (j_timestamp j1) \<noteq> gif_outputPath dir (j_timestamp j2)"
    using assms(1) gif_outputPath_stamp by blast
  note kinds = paths_of_different_kind paths_of_different_kind [symmetric]
  show ?thesis
    by (cases "j_endpoint j1"; cases "j_endpoint j2")
      (simp_all add: job_paths_def input_ne info_ne output_ne kinds)
qed

text \<open>A run of it: two conversions of the same upload name, one millisecond apart.\<close>

theorem job_paths_disjoint_witness:
  "job_paths ''/tmp'' \<lparr>j_endpoint = Gif, j_timestamp = 1700000000000, j_name = ''a.mp4''\<rparr>
   \<inter> job_paths ''/tmp'' \<lparr>j_endpoint = Gif, j_timestamp = 1700000000001, j_name = ''a.mp4''\<rparr> = {}"
  using job_paths_disjoint [of "\<lparr>j_endpoint = Gif, j_timestamp = 1700000000000, j_name = ''a.mp4''\<rparr>"
      "\<lparr>j_endpoint = Gif, j_timestamp = 1700000000001, j_name = ''a.mp4''\<rparr>" "''/tmp''"]
  by simp

text \<open>
  C9 as stated fails for two conversions served in the same millisecond: the jobs differ
  (the uploads have different names) and both own the output path of that time stamp.
\<close>

theorem same_millisecond_counterexample:
  "\<lparr>j_endpoint = Gif, j_timestamp = 1700000000000, j_name = ''a.mp4''\<rparr>
     \<noteq> \<lparr>j_endpoint = Gif, j_timestamp = 1700000000000, j_name = ''b.mp4''\<rparr>
   \<and> gif_outputPath ''/tmp'' 1700000000000
       \<in> job_paths ''/tmp'' \<lparr>j_endpoint = Gif, j_timestamp = 1700000000000, j_name = ''a.mp4''\<rparr>
         \<inter> job_paths ''/tmp'' \<lparr>j_endpoint = Gif, j_timestamp = 1700000000000, j_name = ''b.mp4''\<rparr>"
  by (simp add: job_paths_def)


section \<open>Runs of the handlers\<close>

lemma valid_a: "isValidVideoFile ''a.mp4''"
  by (simp add: isValidVideoFile_def extname_def last_component_def toLowerCase_def lower_char_def
      validExtensions_def)

lemma stamp: "show_nat 1700000000000 = ''1700000000000''"
  by (simp add: show_nat.simps digit_char_def)

lemma invalid_data_message:
  "errorMessage ''a.mp4: Invalid data found when processing input'' = ''Invalid or corrupted video file''"
  by (simp add: errorMessage_def)

lemma generic_message: "errorMessage [] = ''FFmpeg processing failed''"
  by (simp add: errorMessage_def)

lemmas run_defs = gif_handler_def gif_child_done_def gif_exec_callback_def on_exit_def child_writes_def
  gif_catch_def send_gif_def cleanup_def existsSync_def unlinkSync_def res_json_def res_send_def
  exec_err_def
  gif_inputPath_def gif_outputPath_def path_join_def fresh_def upload_a_def failing_run_def
  info_handler_def info_exec_callback_def info_inputPath_def

lemma info_command_streams: "exec_streams (info_command ffmpeg p) out err = (out @ err, [])"
proof -
  have "stderr_to_stdout (info_command ffmpeg p)"
    unfolding stderr_to_stdout_def info_command_def
    by (rule suffixI [where zs = "escapeShellPath ffmpeg @ '' -i '' @ escapeShellPath p @ '' -f null -''"])
      simp
  then show ?thesis by (simp add: exec_streams_def)
qed

lemma cleanup_calls: "calls (cleanup a b w) = calls w" "headersSent (cleanup a b w) = headersSent w"
  by (simp_all add: cleanup_def unlinkSync_def Let_def split: option.splits)

text \<open>The error replies of the callback touch no file.\<close>

lemma gif_error_reply_without_cleanup:
  assumes "err \<noteq> None \<or> files w outputPath = None \<or> files w outputPath = Some 0"
  shows "unlinked (gif_exec_callback e inputPath outputPath err out diag w) = unlinked w
         \<and> files (gif_exec_callback e inputPath outputPath err out diag w) = files w"
  using assms by (auto simp: gif_exec_callback_def res_json_def res_send_def)

text \<open>
  C1. Three runs of the conversion in which the job ends on an error branch of the
  callback: the child exits with status 1; it exits with status 0 and leaves no output
  file; it exits with status 0 and leaves an empty output file. In each, no deletion is
  attempted and the input file stays in the temporary directory (in the third, the
  empty output file too).
\<close>

theorem gif_error_branches_leave_files:
  "unlinked (gif_handler failing_run upload_a fresh) = []
   \<and> files (gif_handler failing_run upload_a fresh) ''/tmp/input-1700000000000-a.mp4'' = Some 1000
   \<and> calls (gif_handler failing_run upload_a fresh) = [Json 500 ''Invalid or corrupted video file'' None]
   \<and> unlinked (gif_handler (failing_run\<lparr>child_ending := Exited 0\<rparr>) upload_a fresh) = []
   \<and> files (gif_handler (failing_run\<lparr>child_ending := Exited 0\<rparr>) upload_a fresh)
         ''/tmp/input-1700000000000-a.mp4'' = Some 1000
   \<and> calls (gif_handler (failing_run\<lparr>child_ending := Exited 0\<rparr>) upload_a fresh)
       = [Json 500 ''GIF generation failed - no output file created'' None]
   \<and> unlinked (gif_handler (failing_run\<lparr>child_ending := Exited 0, child_output := Some 0\<rparr>) upload_a fresh) = []
   \<and> files (gif_handler (failing_run\<lparr>child_ending := Exited 0, child_output := Some 0\<rparr>) upload_a fresh)
         ''/tmp/input-1700000000000-a.mp4'' = Some 1000
   \<and> files (gif_handler (failing_run\<lparr>child_ending := Exited 0, child_output := Some 0\<rparr>) upload_a fresh)
         ''/tmp/gif-1700000000000.gif'' = Some 0
   \<and> calls (gif_handler (failing_run\<lparr>child_ending := Exited 0, child_output := Some 0\<rparr>) upload_a fresh)
       = [Json 500 ''GIF generation failed - empty output file'' None]"
  by (simp add: run_defs valid_a stamp invalid_data_message)

text \<open>
  The first run of C1 once more: the upload is accepted and saved with its 1000 bytes,
  so the handler reaches the child, and after the reply the file is still there with
  no deletion attempted.
\<close>

theorem gif_error_branches_leave_files_witness:
  "isValidVideoFile ''a.mp4''
   \<and> mv_error failing_run = None
   \<and> unlinked (gif_handler failing_run upload_a fresh) = []
   \<and> files (gif_handler failing_run upload_a fresh) ''/tmp/input-1700000000000-a.mp4'' \<noteq> None"
  using gif_error_branches_leave_files by (simp add: valid_a failing_run_def)

text \<open>
  C2. Runs in which the child is killed by SIGTERM, as \<^verbatim>\<open>exec\<close> does when its timeout
  expires. The conversion replies that processing timed out and then the callback of
  \<^verbatim>\<open>exec\<close>, which gets the kill as its error, issues the process-failure reply as well;
  were the callback to run first, the process-failure reply would be the only one. The
  metadata endpoint has no time-out reply: it answers from the diagnostic text alone.
\<close>

theorem timeout_also_reported_as_failure:
  "calls (gif_handler (failing_run\<lparr>child_ending := Killed ''SIGTERM'', child_stderr := []\<rparr>) upload_a fresh)
     = [Json 500 ''Processing timed out - video may be too large or complex'' None,
        Json 500 ''FFmpeg processing failed'' None]
   \<and> calls (on_exit ''/tmp/in'' ''/tmp/out'' (Killed ''SIGTERM'')
        (gif_exec_callback failing_run ''/tmp/in'' ''/tmp/out'' (exec_err (Killed ''SIGTERM'')) [] []
          (fresh\<lparr>files := [''/tmp/in'' \<mapsto> 1000]\<rparr>)))
     = [Json 500 ''FFmpeg processing failed'' None]
   \<and> calls (info_handler (failing_run\<lparr>child_ending := Killed ''SIGTERM'', child_stderr := []\<rparr>) upload_a fresh)
     = [Json 500 ''FFmpeg info extraction failed'' None]"
  by (simp add: run_defs valid_a stamp generic_message info_command_streams)

text \<open>
  The first run of C2 once more: the kill reaches the callback as its error, and the
  reply that ends the list is the process-failure one.
\<close>

theorem timeout_also_reported_as_failure_witness:
  "exec_err (Killed ''SIGTERM'') \<noteq> None
   \<and> last (calls (gif_handler (failing_run\<lparr>child_ending := Killed ''SIGTERM'', child_stderr := []\<rparr>)
               upload_a fresh))
       = Json 500 ''FFmpeg processing failed'' None"
  using timeout_also_reported_as_failure by (simp add: exec_err_def)

text \<open>
  In the time-out run of the conversion the headers have gone out with the first reply,
  so the second, the process-failure reply, is not delivered: the call throws.
\<close>

lemma timeout_second_reply_throws:
  "thrown (gif_handler (failing_run\<lparr>child_ending := Killed ''SIGTERM'', child_stderr := []\<rparr>) upload_a fresh)
     = [''ERR_HTTP_HEADERS_SENT'']"
  by (simp add: run_defs valid_a stamp generic_message)

section \<open>Output verification after a zero exit\<close>

lemma send_gif_first_call:
  "prefix (calls w @ [Pipe (''converted-'' @ show_nat (now e) @ ''.gif'') n outputPath])
     (calls (send_gif e inputPath outputPath n w))"
  by (cases "streaming e") (simp_all add: send_gif_def Let_def cleanup_calls res_json_def res_send_def)

text \<open>
  C5. When the child exits with status 0, the reply is decided by the file at the output
  path once the child is done: no file gives the "no output file created" error, a file
  of zero bytes gives the "empty output file" error, and only a file of n > 0 bytes is
  streamed, with n as its content length.
\<close>

theorem gif_zero_exit_outcome:
  assumes "child_ending e = Exited 0"
  shows "(files (child_writes outputPath (child_output e) w) outputPath = None \<longrightarrow>
            calls (gif_child_done e inputPath outputPath w)
              = calls w @ [Json 500 ''GIF generation failed - no output file created'' None])
       \<and> (files (child_writes outputPath (child_output e) w) outputPath = Some 0 \<longrightarrow>
            calls (gif_child_done e inputPath outputPath w)
              = calls w @ [Json 500 ''GIF generation failed - empty output file'' None])
       \<and> (\<forall>n. files (child_writes outputPath (child_output e) w) outputPath = Some n \<and> 0 < n \<longrightarrow>
            prefix (calls w @ [Pipe (''converted-'' @ show_nat (now e) @ ''.gif'') n outputPath])
              (calls (gif_child_done e inputPath outputPath w)))"
proof -
  let ?w = "child_writes outputPath (child_output e) w"
  have same: "calls ?w = calls w"
    by (simp add: child_writes_def split: option.splits)
  have step: "gif_child_done e inputPath outputPath w
              = gif_exec_callback e inputPath outputPath None (child_stdout e) (child_stderr e) ?w"
    using assms by (simp add: gif_child_done_def on_exit_def exec_err_def)
  have "prefix (calls w @ [Pipe (''converted-'' @ show_nat (now e) @ ''.gif'') n outputPath])
          (calls (gif_child_done e inputPath outputPath w))"
    if "files ?w outputPath = Some n" and "0 < n" for n
    using that send_gif_first_call [of ?w e n outputPath inputPath]
    by (simp add: step gif_exec_callback_def same)
  then show ?thesis
    by (simp add: step gif_exec_callback_def res_json_def res_send_def same)
qed

text \<open>
  Runs of C5: the child exits with status 0 leaving 2048 bytes, zero bytes, and nothing.
\<close>

theorem gif_zero_exit_outcome_witness:
  "prefix [Pipe ''converted-1700000000000.gif'' 2048 ''/tmp/out'']
     (calls (gif_child_done (failing_run\<lparr>child_ending := Exited 0, child_output := Some 2048\<rparr>)
            ''/tmp/in'' ''/tmp/out'' fresh))
   \<and> calls (gif_child_done (failing_run\<lparr>child_ending := Exited 0, child_output := Some 0\<rparr>)
            ''/tmp/in'' ''/tmp/out'' fresh)
     = [Json 500 ''GIF generation failed - empty output file'' None]
   \<and> calls (gif_child_done (failing_run\<lparr>child_ending := Exited 0\<rparr>) ''/tmp/in'' ''/tmp/out'' fresh)
     = [Json 500 ''GIF generation failed - no output file created'' None]"
proof -
  have a: "prefix ([] @ [Pipe ''converted-1700000000000.gif'' 2048 ''/tmp/out''])
             (calls (gif_child_done (failing_run\<lparr>child_ending := Exited 0, child_output := Some 2048\<rparr>)
                ''/tmp/in'' ''/tmp/out'' fresh))"
    using gif_zero_exit_outcome [of "failing_run\<lparr>child_ending := Exited 0, child_output := Some 2048\<rparr>"
        "''/tmp/out''" fresh "''/tmp/in''"]
    by (simp add: failing_run_def child_writes_def fresh_def stamp)
  have b: "calls (gif_child_done (failing_run\<lparr>child_ending := Exited 0, child_output := Some 0\<rparr>)
            ''/tmp/in'' ''/tmp/out'' fresh)
     = [Json 500 ''GIF generation failed - empty output file'' None]"
    using gif_zero_exit_outcome [of "failing_run\<lparr>child_ending := Exited 0, child_output := Some 0\<rparr>"
        "''/tmp/out''" fresh "''/tmp/in''"]
    by (simp add: failing_run_def child_writes_def fresh_def)
  have c: "calls (gif_child_done (failing_run\<lparr>child_ending := Exited 0\<rparr>) ''/tmp/in'' ''/tmp/out'' fresh)
     = [Json 500 ''GIF generation failed - no output file created'' None]"
    using gif_zero_exit_outcome [of "failing_run\<lparr>child_ending := Exited 0\<rparr>"
        "''/tmp/out''" fresh "''/tmp/in''"]
    by (simp add: failing_run_def child_writes_def fresh_def)
  from a b c show ?thesis by simp
qed


section \<open>Quoting a path for the shell\<close>

lemma dquote_body_step:
  assumes "r \<noteq> []" and "c \<notin> {CHR 0x22, CHR ''$'', CHR 0x60, CHR 0x5C}"
  shows "dquote_body acc (c # r) = dquote_body (c # acc) r"
  using assms by (cases r) auto

lemma escape_quotes_Cons:
  "escape_quotes (c # p) = (if c = CHR 0x22 then [CHR 0x5C, CHR 0x22] else [c]) @ escape_quotes p"
  by (simp add: escape_quotes_def)

lemma dquote_body_plain:
  assumes "set p \<inter> {CHR ''$'', CHR 0x60, CHR 0x5C} = {}"
  shows "dquote_body acc (escape_quotes p @ [CHR 0x22]) = Argument (rev acc @ p) []"
  using assms
proof (induction p arbitrary: acc)
  case Nil
  then show ?case by (simp add: escape_quotes_def)
next
  case (Cons c p)
  then have rest: "set p \<inter> {CHR ''$'', CHR 0x60, CHR 0x5C} = {}"
    and c: "c \<notin> {CHR ''$'', CHR 0x60, CHR 0x5C}" by auto
  show ?case
  proof (cases "c = CHR 0x22")
    case True
    then show ?thesis
      using Cons.IH [OF rest, of "CHR 0x22 # acc"] by (simp add: escape_quotes_Cons)
  next
    case False
    with c have "c \<notin> {CHR 0x22, CHR ''$'', CHR 0x60, CHR 0x5C}" by simp
    then have "dquote_body acc (c # (escape_quotes p @ [CHR 0x22]))
               = dquote_body (c # acc) (escape_quotes p @ [CHR 0x22])"
      by (intro dquote_body_step) simp_all
    with False show ?thesis
      using Cons.IH [OF rest, of "c # acc"] by (simp add: escape_quotes_Cons)
  qed
qed

text \<open>
  A path without dollar sign, backquote and backslash is read back by the shell as one
  argument, the path itself, double quotes and spaces included.
\<close>

lemma escapeShellPath_plain:
  assumes "set p \<inter> {CHR ''$'', CHR 0x60, CHR 0x5C} = {}"
  shows "read_dquoted (escapeShellPath p) = Argument p []"
  using dquote_body_plain [OF assms, of "[]"] by (simp add: read_dquoted_def escapeShellPath_def)

text \<open>
  C3. Two paths that hold a double quote and are not passed on literally. The upload
  name \<^verbatim>\<open>"$(id).mp4\<close> is accepted as a video name; in its escaped input path the shell
  meets an unescaped dollar sign inside the quotes and expands it. In the escaped form
  of \<^verbatim>\<open>a\"b\<close> the backslash of the path escapes the backslash that was added, so the
  path's quote closes the word after \<^verbatim>\<open>a\\<close> and the rest of the line follows outside it.
\<close>

theorem escapeShellPath_not_literal:
  "isValidVideoFile ([CHR 0x22] @ ''$(id).mp4'')
   \<and> read_dquoted (escapeShellPath (gif_inputPath ''/tmp'' 1700000000000 ([CHR 0x22] @ ''$(id).mp4'')))
       = Expansion
   \<and> escapeShellPath [CHR ''a'', CHR 0x5C, CHR 0x22, CHR ''b'']
       = [CHR 0x22, CHR ''a'', CHR 0x5C, CHR 0x5C, CHR 0x22, CHR ''b'', CHR 0x22]
   \<and> read_dquoted (escapeShellPath [CHR ''a'', CHR 0x5C, CHR 0x22, CHR ''b''])
       = Argument [CHR ''a'', CHR 0x5C] [CHR ''b'', CHR 0x22]"
  by (simp add: isValidVideoFile_def extname_def last_component_def toLowerCase_def lower_char_def
      validExtensions_def read_dquoted_def escapeShellPath_def escape_quotes_def gif_inputPath_def
      path_join_def stamp)

text \<open>
  The second path of C3 once more: what the shell reads as the argument is not the path.
\<close>

theorem escapeShellPath_not_literal_witness:
  "read_dquoted (escapeShellPath [CHR ''a'', CHR 0x5C, CHR 0x22, CHR ''b''])
     \<noteq> Argument [CHR ''a'', CHR 0x5C, CHR 0x22, CHR ''b''] []"
proof -
  have "read_dquoted (escapeShellPath [CHR ''a'', CHR 0x5C, CHR 0x22, CHR ''b''])
        = Argument [CHR ''a'', CHR 0x5C] [CHR ''b'', CHR 0x22]"
    using escapeShellPath_not_literal by blast
  then show ?thesis by simp
qed

section \<open>Binary64 rounding of small integers\<close>

lemma round_half_even_int: "round_half_even (of_int j) = j"
  by (simp add: round_half_even_def)

lemma binade_int_le:
  assumes "0 < n" and "n < 2 ^ 53"
  shows "binade (of_int n) \<le> 52"
proof -
  have "bitlen n \<le> 53" using assms by (simp add: bitlen_le_iff_power)
  moreover have "bitlen 1 = 1" by code_simp
  ultimately show ?thesis by (simp add: binade_def Let_def)
qed

lemma round64_nonneg_int:
  assumes "0 \<le> n" and "n < 2 ^ 53"
  shows "round64 (of_int n) = of_int n"
proof (cases "n = 0")
  case True
  then show ?thesis by (simp add: round64_def)
next
  case False
  with assms have pos: "0 < n" by simp
  define k where "k = max (binade \<bar>rat_of_int n\<bar> - 52) (- 1074)"
  have "\<bar>rat_of_int n\<bar> = of_int n" using pos by simp
  then have "k \<le> 0" using binade_int_le [OF pos assms(2)] by (simp add: k_def)
  then have u: "pow2 k = 1 / 2 ^ nat (- k)" by (cases "k = 0") (simp_all add: pow2_def)
  have "\<bar>rat_of_int n\<bar> / pow2 k = of_int (n * 2 ^ nat (- k))" using pos by (simp add: u)
  then have "round_half_even (\<bar>rat_of_int n\<bar> / pow2 k) = n * 2 ^ nat (- k)"
    by (simp only: round_half_even_int)
  then have "of_int (round_half_even (\<bar>rat_of_int n\<bar> / pow2 k)) * pow2 k = rat_of_int n"
    by (simp add: u)
  then show ?thesis using pos by (simp add: round64_def Let_def k_def)
qed

lemma double_of_nonneg_int:
  assumes "0 \<le> n" and "n < 2 ^ 53"
  shows "double_of (of_int n) = Num (of_int n)"
proof (cases "n = 0")
  case True
  then show ?thesis by (simp add: double_of_def round64_def)
next
  case False
  with assms have pos: "0 < n" by simp
  have "binade \<bar>rat_of_int n\<bar> \<le> 52"
    using binade_int_le [OF pos assms(2)] pos by simp
  then show ?thesis
    using pos by (simp add: double_of_def round64_nonneg_int [OF assms])
qed

section \<open>Digits\<close>

lemma is_digit_cases:
  "is_digit c \<longleftrightarrow> c = CHR ''0'' \<or> c = CHR ''1'' \<or> c = CHR ''2'' \<or> c = CHR ''3'' \<or> c = CHR ''4''
     \<or> c = CHR ''5'' \<or> c = CHR ''6'' \<or> c = CHR ''7'' \<or> c = CHR ''8'' \<or> c = CHR ''9''"
  by (simp add: is_digit_def)

lemma digit_radix: "is_digit c \<Longrightarrow> radix_digit 10 c \<noteq> None"
  unfolding is_digit_cases by (elim disjE; simp add: radix_digit_def)

lemma digit_val_range: "is_digit c \<Longrightarrow> 0 \<le> digit_val 10 c \<and> digit_val 10 c \<le> 9"
  unfolding is_digit_cases by (elim disjE; simp add: digit_val_def radix_digit_def)

lemma digit_not_other:
  assumes "is_digit c"
  shows "\<not> is_space c" "c \<noteq> CHR ''+''" "c \<noteq> CHR ''-''" "c \<noteq> CHR ''x''" "c \<noteq> CHR ''X''"
    "c \<noteq> CHR ''.''" "c \<noteq> CHR ''f''" "c \<noteq> CHR ''k''" "c \<noteq> CHR '':''"
  using assms unfolding is_digit_cases by (auto simp: is_space_def)

lemma digits_value_range:
  "list_all is_digit ds \<Longrightarrow> 0 \<le> digits_value 10 ds \<and> digits_value 10 ds < 10 ^ length ds"
proof (induction ds rule: rev_induct)
  case Nil
  then show ?case by (simp add: digits_value_def)
next
  case (snoc c ds)
  then have ih: "0 \<le> digits_value 10 ds" "digits_value 10 ds < 10 ^ length ds"
    and c: "0 \<le> digit_val 10 c" "digit_val 10 c \<le> 9"
    using digit_val_range [of c] by simp_all
  from ih(2) have "digits_value 10 ds * 10 + 9 < 10 ^ length ds * 10" by simp
  with ih(1) c show ?case by (simp add: digits_value_snoc)
qed

lemma parseInt_str_digits:
  assumes "ds \<noteq> []" and "list_all is_digit ds"
  shows "parseInt_str ds = double_of (of_int (digits_value 10 ds))"
proof -
  from assms obtain c cs where ds: "ds = c # cs" and c: "is_digit c" by (cases ds) auto
  have drop: "dropWhile is_space ds = ds" using ds digit_not_other(1) [OF c] by simp
  have nohex: "\<not> prefix ''0x'' ds" "\<not> prefix ''0X'' ds"
  proof -
    show "\<not> prefix ''0x'' ds"
    proof
      assume "prefix ''0x'' ds"
      then obtain r where "ds = ''0x'' @ r" by (auto simp: prefix_def)
      with assms(2) have "is_digit (CHR ''x'')" by simp
      then show False by (simp add: is_digit_def)
    qed
    show "\<not> prefix ''0X'' ds"
    proof
      assume "prefix ''0X'' ds"
      then obtain r where "ds = ''0X'' @ r" by (auto simp: prefix_def)
      with assms(2) have "is_digit (CHR ''X'')" by simp
      then show False by (simp add: is_digit_def)
    qed
  qed
  have "\<forall>x\<in>set ds. radix_digit 10 x \<noteq> None"
    using assms(2) digit_radix by (auto simp: list_all_iff)
  then have run: "takeWhile (\<lambda>c. radix_digit 10 c \<noteq> None) ds = ds"
    by (simp add: takeWhile_eq_all_conv)
  have neg: "(case ds of c # _ \<Rightarrow> c = CHR ''-'' | [] \<Rightarrow> False) = False"
    using digit_not_other(3) [OF c] by (simp add: ds)
  have sign: "(case ds of c # cs \<Rightarrow> if c = CHR ''+'' \<or> c = CHR ''-'' then cs else ds | [] \<Rightarrow> ds) = ds"
    using digit_not_other(2,3) [OF c] by (simp add: ds)
  have hex: "(prefix ''0x'' ds \<or> prefix ''0X'' ds) = False"
    using nohex by simp
  show ?thesis
    unfolding parseInt_str_def Let_def drop neg sign hex if_False run
    using assms(1) by simp
qed

lemma parseInt_str_short:
  assumes "ds \<noteq> []" and "list_all is_digit ds" and "length ds \<le> 15"
  shows "parseInt_str ds = Num (of_int (digits_value 10 ds))"
proof -
  have nonneg: "0 \<le> digits_value 10 ds"
    using digits_value_range [OF assms(2)] by simp
  have "digits_value 10 ds < 10 ^ length ds"
    using digits_value_range [OF assms(2)] by simp
  also have "(10::int) ^ length ds \<le> 10 ^ 15" using assms(3) by (intro power_increasing) simp_all
  also have "(10::int) ^ 15 < 2 ^ 53" by simp
  finally have "digits_value 10 ds < 2 ^ 53" .
  with nonneg show ?thesis
    by (simp add: parseInt_str_digits [OF assms(1,2)] double_of_nonneg_int)
qed

section \<open>The patterns match what the specification says\<close>

lemma lit_Some_iff: "lit p s = Some r \<longleftrightarrow> s = p @ r"
  by (auto simp: lit_def prefix_def)

lemma take_digits_Some_iff:
  "take_digits n s = Some (d, r) \<longleftrightarrow> s = d @ r \<and> length d = n \<and> list_all is_digit d"
  by (auto simp: take_digits_def)

lemma run_then_stop:
  assumes "list_all P d" and "case r of [] \<Rightarrow> True | c # _ \<Rightarrow> \<not> P c"
  shows "takeWhile P (d @ r) = d" and "dropWhile P (d @ r) = r"
  using assms by (induction d) (auto split: list.splits)

lemma digits1_Some_iff:
  "digits1 s = Some (d, r) \<longleftrightarrow> s = d @ r \<and> digit_run d \<and> no_digit_next r"
proof
  assume "digits1 s = Some (d, r)"
  then have d: "d = takeWhile is_digit s" and r: "r = dropWhile is_digit s" and ne: "d \<noteq> []"
    by (auto simp: digits1_def split: if_splits)
  have "list_all is_digit d" unfolding d list_all_iff by (auto dest: set_takeWhileD)
  moreover have "no_digit_next r"
  proof (cases r)
    case Nil
    then show ?thesis by (simp add: no_digit_next_def)
  next
    case (Cons x xs)
    then have "dropWhile is_digit s \<noteq> []" and "hd (dropWhile is_digit s) = x"
      using r by simp_all
    then have "\<not> is_digit x" using hd_dropWhile [of is_digit s] by simp
    then show ?thesis by (simp add: no_digit_next_def Cons)
  qed
  ultimately show "s = d @ r \<and> digit_run d \<and> no_digit_next r"
    using ne by (simp add: d r digit_run_def)
next
  assume a: "s = d @ r \<and> digit_run d \<and> no_digit_next r"
  then have "takeWhile is_digit s = d" and "dropWhile is_digit s = r"
    using run_then_stop [of is_digit d r] by (simp_all add: digit_run_def no_digit_next_def)
  with a show "digits1 s = Some (d, r)" by (simp add: digits1_def digit_run_def)
qed

lemma spaces_then_lit:
  assumes "p \<noteq> []" and "\<not> is_space (hd p)"
  shows "lit p (dropWhile is_space r) = Some r' \<longleftrightarrow> (\<exists>ws. r = ws @ p @ r' \<and> list_all is_space ws)"
proof
  assume "lit p (dropWhile is_space r) = Some r'"
  then have "dropWhile is_space r = p @ r'" by (simp add: lit_Some_iff)
  then have "r = takeWhile is_space r @ p @ r'"
    by (metis takeWhile_dropWhile_id)
  moreover have "list_all is_space (takeWhile is_space r)"
    unfolding list_all_iff by (auto dest: set_takeWhileD)
  ultimately show "\<exists>ws. r = ws @ p @ r' \<and> list_all is_space ws" by blast
next
  assume "\<exists>ws. r = ws @ p @ r' \<and> list_all is_space ws"
  then obtain ws where r: "r = ws @ p @ r'" and ws: "list_all is_space ws" by blast
  from assms have "case p @ r' of [] \<Rightarrow> True | c # _ \<Rightarrow> \<not> is_space c"
    by (cases p) simp_all
  with ws have "dropWhile is_space (ws @ p @ r') = p @ r'" by (rule run_then_stop(2))
  then show "lit p (dropWhile is_space r) = Some r'" by (simp add: r lit_Some_iff)
qed

lemma take_digits_append:
  "length ds = n \<Longrightarrow> list_all is_digit ds \<Longrightarrow> take_digits n (ds @ r) = Some (ds, r)"
  by (simp add: take_digits_def)

lemma duration_at_shape:
  assumes "two_digits h" "two_digits m" "two_digits s" "two_digits c"
  shows "duration_at (''Duration: '' @ h @ '':'' @ m @ '':'' @ s @ ''.'' @ c @ rest) = Some (h, m, s, c)"
proof -
  have "lit ''Duration: '' (''Duration: '' @ x) = Some x" for x
    by (simp add: lit_def)
  moreover have "lit '':'' ('':'' @ x) = Some x" and "lit ''.'' (''.'' @ x) = Some x" for x
    by (simp_all add: lit_def)
  ultimately show ?thesis
    unfolding duration_at_def using assms
    by (simp only: two_digits_def take_digits_append bind.bind_lunit case_prod_conv)
qed

lemma duration_at_iff: "duration_at t = Some g \<longleftrightarrow> spec_duration t g"
proof (cases g)
  case (fields h m s c)
  show ?thesis
  proof
    assume "duration_at t = Some g"
    then show "spec_duration t g"
      unfolding fields duration_at_def spec_duration_def two_digits_def
      by (auto simp: bind_eq_Some_conv lit_Some_iff take_digits_Some_iff)
  next
    assume "spec_duration t g"
    then obtain rest where "two_digits h" "two_digits m" "two_digits s" "two_digits c"
      and t: "t = ''Duration: '' @ h @ '':'' @ m @ '':'' @ s @ ''.'' @ c @ rest"
      unfolding fields spec_duration_def by auto
    then show "duration_at t = Some g"
      unfolding fields t by (intro duration_at_shape)
  qed
qed

lemma no_digit_after_spaces:
  assumes "list_all is_space ws" and "p \<noteq> []" and "\<not> is_digit (hd p)"
  shows "no_digit_next (ws @ p @ rest)"
proof (cases ws)
  case Nil
  with assms(2,3) show ?thesis by (cases p) (simp_all add: no_digit_next_def)
next
  case (Cons c cs)
  with assms(1) have "is_space c" by simp
  then have "\<not> is_digit c" using digit_not_other(1) by blast
  with Cons show ?thesis by (simp add: no_digit_next_def)
qed

lemma spaces_kbs:
  "lit ''kb/s'' (dropWhile is_space r) = Some r' \<longleftrightarrow> (\<exists>ws. r = ws @ ''kb/s'' @ r' \<and> list_all is_space ws)"
  by (rule spaces_then_lit) (simp_all add: is_space_def)

lemma spaces_fps:
  "lit ''fps'' (dropWhile is_space r) = Some r' \<longleftrightarrow> (\<exists>ws. r = ws @ ''fps'' @ r' \<and> list_all is_space ws)"
  by (rule spaces_then_lit) (simp_all add: is_space_def)

lemma bitrate_at_iff: "bitrate_at t = Some d \<longleftrightarrow> spec_bitrate t d"
proof
  assume "bitrate_at t = Some d"
  then obtain r0 r1 r2 where "lit ''bitrate: '' t = Some r0" and "digits1 r0 = Some (d, r1)"
    and "lit ''kb/s'' (dropWhile is_space r1) = Some r2"
    by (auto simp: bitrate_at_def bind_eq_Some_conv)
  then have "t = ''bitrate: '' @ r0" and "r0 = d @ r1" and "digit_run d"
    and "\<exists>ws. r1 = ws @ ''kb/s'' @ r2 \<and> list_all is_space ws"
    using spaces_kbs [of r1 r2] by (simp_all only: lit_Some_iff digits1_Some_iff simp_thms)
  then show "spec_bitrate t d"
    unfolding spec_bitrate_def by blast
next
  assume "spec_bitrate t d"
  then obtain ws rest where d: "digit_run d" and ws: "list_all is_space ws"
    and t: "t = ''bitrate: '' @ d @ ws @ ''kb/s'' @ rest"
    unfolding spec_bitrate_def by blast
  have 1: "lit ''bitrate: '' t = Some (d @ ws @ ''kb/s'' @ rest)"
    by (simp add: lit_Some_iff t)
  have "no_digit_next (ws @ ''kb/s'' @ rest)"
    using ws by (rule no_digit_after_spaces) (simp_all add: is_digit_def)
  with d have 2: "digits1 (d @ ws @ ''kb/s'' @ rest) = Some (d, ws @ ''kb/s'' @ rest)"
    by (simp add: digits1_Some_iff)
  have 3: "lit ''kb/s'' (dropWhile is_space (ws @ ''kb/s'' @ rest)) = Some rest"
    using ws spaces_kbs by blast
  show "bitrate_at t = Some d"
    unfolding bitrate_at_def by (simp only: 1 2 3 bind.bind_lunit case_prod_conv)
qed

lemma fps_at_iff: "fps_at t = Some g \<longleftrightarrow> spec_fps t g"
proof
  assume "fps_at t = Some g"
  then obtain d1 r1 where a: "digits1 t = Some (d1, r1)"
    and rest: "(case (case lit ''.'' r1 \<bind> digits1 of Some (d2, r) \<Rightarrow> (''.'' @ d2, r)
                                                     | None \<Rightarrow> ([], r1)) of
                  (fp, r2) \<Rightarrow> lit ''fps'' (dropWhile is_space r2) \<bind> (\<lambda>r3. Some (d1 @ fp)))
               = Some g"
    by (auto simp: fps_at_def bind_eq_Some_conv)
  define pr where "pr = (case lit ''.'' r1 \<bind> digits1 of Some (d2, r) \<Rightarrow> (''.'' @ d2, r)
                                                         | None \<Rightarrow> ([], r1))"
  obtain fp r2 where b: "(fp, r2) = pr" by (cases pr) simp
  from rest have "(case pr of (fp, r2) \<Rightarrow>
                     lit ''fps'' (dropWhile is_space r2) \<bind> (\<lambda>r3. Some (d1 @ fp))) = Some g"
    unfolding pr_def .
  then obtain r3 where c: "lit ''fps'' (dropWhile is_space r2) = Some r3" and g: "g = d1 @ fp"
    unfolding b [symmetric] by (auto simp: bind_eq_Some_conv)
  note b = b [unfolded pr_def]
  from a have t: "t = d1 @ r1" and d1: "digit_run d1" by (simp_all add: digits1_Some_iff)
  from c obtain ws where r2: "r2 = ws @ ''fps'' @ r3" and ws: "list_all is_space ws"
    using spaces_fps by blast
  have "r1 = fp @ r2 \<and> (fp = [] \<or> (\<exists>d2. fp = ''.'' @ d2 \<and> digit_run d2))"
  proof (cases "lit ''.'' r1 \<bind> digits1")
    case None
    with b show ?thesis by simp
  next
    case (Some dr)
    then obtain d2 r r' where dr: "dr = (d2, r)" and "lit ''.'' r1 = Some r'" and "digits1 r' = Some (d2, r)"
      by (cases dr) (auto simp: bind_eq_Some_conv)
    then have "r1 = ''.'' @ d2 @ r" and "digit_run d2"
      by (simp_all add: lit_Some_iff digits1_Some_iff)
    moreover from b Some dr have "fp = ''.'' @ d2" and "r2 = r" by simp_all
    ultimately show ?thesis by auto
  qed
  with t r2 have "t = d1 @ fp @ ws @ ''fps'' @ r3"
    and "fp = [] \<or> (\<exists>d2. fp = ''.'' @ d2 \<and> digit_run d2)" by simp_all
  with g d1 ws show "spec_fps t g" unfolding spec_fps_def by blast
next
  assume "spec_fps t g"
  then obtain d1 fp ws rest where t: "t = d1 @ fp @ ws @ ''fps'' @ rest" and g: "g = d1 @ fp"
    and d1: "digit_run d1" and fpc: "fp = [] \<or> (\<exists>d2. fp = ''.'' @ d2 \<and> digit_run d2)"
    and ws: "list_all is_space ws"
    unfolding spec_fps_def by blast
  have tail: "no_digit_next (ws @ ''fps'' @ rest)"
    using ws by (rule no_digit_after_spaces) (simp_all add: is_digit_def)
  have sp: "lit ''fps'' (dropWhile is_space (ws @ ''fps'' @ rest)) = Some rest"
    using ws spaces_fps by blast
  from fpc show "fps_at t = Some g"
  proof
    assume none: "fp = []"
    have 1: "digits1 t = Some (d1, ws @ ''fps'' @ rest)"
      using d1 tail by (simp add: digits1_Some_iff t none)
    have "lit ''.'' (ws @ ''fps'' @ rest) = None"
    proof (cases ws)
      case Nil
      then show ?thesis by (simp add: lit_def)
    next
      case (Cons c cs)
      with ws have "is_space c" by simp
      then have "c \<noteq> CHR ''.''" by (auto simp: is_space_def)
      with Cons show ?thesis by (simp add: lit_def)
    qed
    then have 2: "lit ''.'' (ws @ ''fps'' @ rest) \<bind> digits1 = None" by simp
    show ?thesis
      unfolding fps_at_def
      by (simp only: 1 2 sp bind.bind_lunit case_prod_conv option.case g none append_Nil2)
  next
    assume "\<exists>d2. fp = ''.'' @ d2 \<and> digit_run d2"
    then obtain d2 where pr: "fp = ''.'' @ d2" and d2: "digit_run d2" by blast
    have "no_digit_next (''.'' @ d2 @ ws @ ''fps'' @ rest)" by (simp add: no_digit_next_def is_digit_def)
    then have 1: "digits1 t = Some (d1, ''.'' @ d2 @ ws @ ''fps'' @ rest)"
      using d1 by (simp add: digits1_Some_iff t pr)
    have "lit ''.'' (''.'' @ d2 @ ws @ ''fps'' @ rest) = Some (d2 @ ws @ ''fps'' @ rest)"
      by (simp add: lit_Some_iff)
    moreover have "digits1 (d2 @ ws @ ''fps'' @ rest) = Some (d2, ws @ ''fps'' @ rest)"
      using d2 tail by (simp add: digits1_Some_iff)
    ultimately have 2: "lit ''.'' (''.'' @ d2 @ ws @ ''fps'' @ rest) \<bind> digits1
                        = Some (d2, ws @ ''fps'' @ rest)"
      by simp
    show ?thesis
      unfolding fps_at_def
      by (simp only: 1 2 sp bind.bind_lunit case_prod_conv option.case g pr)
  qed
qed

lemma take_digits_four_of_three:
  assumes "length h = 3" and "list_all is_digit h"
  shows "take_digits 4 (h @ rest) = None \<longleftrightarrow> no_digit_next rest"
proof (cases rest)
  case Nil
  with assms show ?thesis by (simp add: take_digits_def no_digit_next_def)
next
  case (Cons c cs)
  with assms show ?thesis by (simp add: take_digits_def no_digit_next_def)
qed

lemma second_group_iff:
  "(case take_digits 4 r of Some g \<Rightarrow> Some g | None \<Rightarrow> take_digits 3 r) = Some (h, rest)
   \<longleftrightarrow> r = h @ rest \<and> digits_3_4 h \<and> (length h = 3 \<longrightarrow> no_digit_next rest)"
proof (cases "take_digits 4 r")
  case None
  show ?thesis
  proof
    assume "(case take_digits 4 r of Some g \<Rightarrow> Some g | None \<Rightarrow> take_digits 3 r) = Some (h, rest)"
    with None have three: "r = h @ rest" "length h = 3" "list_all is_digit h"
      by (simp_all add: take_digits_Some_iff)
    with None have "no_digit_next rest" using take_digits_four_of_three by blast
    with three show "r = h @ rest \<and> digits_3_4 h \<and> (length h = 3 \<longrightarrow> no_digit_next rest)"
      by (simp add: digits_3_4_def)
  next
    assume a: "r = h @ rest \<and> digits_3_4 h \<and> (length h = 3 \<longrightarrow> no_digit_next rest)"
    have "length h \<noteq> 4"
    proof
      assume "length h = 4"
      with a have "take_digits 4 r = Some (h, rest)" by (simp add: take_digits_Some_iff digits_3_4_def)
      with None show False by simp
    qed
    with a have "length h = 3" and "list_all is_digit h" by (auto simp: digits_3_4_def)
    with a None show "(case take_digits 4 r of Some g \<Rightarrow> Some g | None \<Rightarrow> take_digits 3 r) = Some (h, rest)"
      by (simp add: take_digits_Some_iff)
  qed
next
  case (Some g)
  then obtain h4 r4 where g: "g = (h4, r4)" and four: "r = h4 @ r4" "length h4 = 4" "list_all is_digit h4"
    by (cases g) (auto simp: take_digits_Some_iff)
  show ?thesis
  proof
    assume "(case take_digits 4 r of Some g \<Rightarrow> Some g | None \<Rightarrow> take_digits 3 r) = Some (h, rest)"
    with Some g have "h = h4" "rest = r4" by simp_all
    with four show "r = h @ rest \<and> digits_3_4 h \<and> (length h = 3 \<longrightarrow> no_digit_next rest)"
      by (simp add: digits_3_4_def)
  next
    assume a: "r = h @ rest \<and> digits_3_4 h \<and> (length h = 3 \<longrightarrow> no_digit_next rest)"
    have "length h \<noteq> 3"
    proof
      assume three: "length h = 3"
      with a have "no_digit_next rest" and "list_all is_digit h" by (simp_all add: digits_3_4_def)
      with three have "take_digits 4 (h @ rest) = None" using take_digits_four_of_three by blast
      with a Some show False by simp
    qed
    with a have "length h = 4" and "list_all is_digit h" by (auto simp: digits_3_4_def)
    with a have "take_digits 4 r = Some (h, rest)" by (simp add: take_digits_Some_iff)
    then show "(case take_digits 4 r of Some g \<Rightarrow> Some g | None \<Rightarrow> take_digits 3 r) = Some (h, rest)"
      by simp
  qed
qed

lemma resolution_with_iff:
  "resolution_with n t = Some (w, h) \<longleftrightarrow>
     length w = n \<and> list_all is_digit w \<and> digits_3_4 h
     \<and> (\<exists>rest. t = w @ ''x'' @ h @ rest \<and> (length h = 3 \<longrightarrow> no_digit_next rest))"
proof
  assume "resolution_with n t = Some (w, h)"
  then obtain r1 r2 r3 where f1: "take_digits n t = Some (w, r1)" and f2: "lit ''x'' r1 = Some r2"
    and f3: "(case take_digits 4 r2 of Some g \<Rightarrow> Some g | None \<Rightarrow> take_digits 3 r2) = Some (h, r3)"
    by (auto simp: resolution_with_def bind_eq_Some_conv)
  from f1 have "t = w @ r1 \<and> length w = n \<and> list_all is_digit w"
    by (rule take_digits_Some_iff [THEN iffD1])
  moreover from f2 have "r1 = ''x'' @ r2" by (rule lit_Some_iff [THEN iffD1])
  moreover from f3 have "r2 = h @ r3 \<and> digits_3_4 h \<and> (length h = 3 \<longrightarrow> no_digit_next r3)"
    by (rule second_group_iff [THEN iffD1])
  ultimately show "length w = n \<and> list_all is_digit w \<and> digits_3_4 h
     \<and> (\<exists>rest. t = w @ ''x'' @ h @ rest \<and> (length h = 3 \<longrightarrow> no_digit_next rest))"
    by auto
next
  assume "length w = n \<and> list_all is_digit w \<and> digits_3_4 h
     \<and> (\<exists>rest. t = w @ ''x'' @ h @ rest \<and> (length h = 3 \<longrightarrow> no_digit_next rest))"
  then obtain rest where w: "length w = n" "list_all is_digit w" and h: "digits_3_4 h"
    and t: "t = w @ ''x'' @ h @ rest" and stop: "length h = 3 \<longrightarrow> no_digit_next rest"
    by blast
  have 1: "take_digits n t = Some (w, ''x'' @ h @ rest)"
    using w t by (intro take_digits_Some_iff [THEN iffD2]) simp
  have 2: "lit ''x'' (''x'' @ h @ rest) = Some (h @ rest)"
    by (rule lit_Some_iff [THEN iffD2]) simp
  have 3: "(case take_digits 4 (h @ rest) of Some g \<Rightarrow> Some g | None \<Rightarrow> take_digits 3 (h @ rest))
           = Some (h, rest)"
    using h stop by (intro second_group_iff [THEN iffD2]) simp
  show "resolution_with n t = Some (w, h)"
    unfolding resolution_with_def by (simp only: 1 2 3 bind.bind_lunit case_prod_conv)
qed

lemma resolution_at_iff: "resolution_at t = Some g \<longleftrightarrow> spec_resolution t g"
proof (cases g)
  case (Pair w h)
  have excl: "resolution_with 3 t = None" if "resolution_with 4 t = Some g'" for g'
  proof (rule ccontr)
    assume "resolution_with 3 t \<noteq> None"
    then obtain w3 h3 where "resolution_with 3 t = Some (w3, h3)" by (cases "resolution_with 3 t") auto
    then obtain r3 where t3: "t = w3 @ ''x'' @ h3 @ r3" and l3: "length w3 = 3"
      by (auto simp: resolution_with_iff)
    from that obtain w4 h4 r4 where t4: "t = w4 @ ''x'' @ h4 @ r4" and l4: "length w4 = 4"
      and d4: "list_all is_digit w4"
      by (cases g') (auto simp: resolution_with_iff)
    from t3 l3 have "t ! 3 = CHR ''x''" by (simp add: nth_append)
    moreover from t4 l4 have "t ! 3 = w4 ! 3" by (simp add: nth_append)
    moreover from d4 l4 have "is_digit (w4 ! 3)" by (simp add: list_all_length)
    ultimately show False by (simp add: is_digit_def)
  qed
  have "resolution_at t = Some (w, h) \<longleftrightarrow>
          resolution_with 4 t = Some (w, h) \<or> resolution_with 3 t = Some (w, h)"
    using excl by (cases "resolution_with 4 t") (auto simp: resolution_at_def)
  also have "\<dots> \<longleftrightarrow> spec_resolution t (w, h)"
    unfolding resolution_with_iff spec_resolution_def digits_3_4_def by auto
  finally show ?thesis by (simp add: Pair)
qed

section \<open>The first match\<close>

lemma first_match_None_iff:
  "first_match m s = None \<longleftrightarrow> (\<forall>i\<le>length s. m (drop i s) = None)"
proof (induction s)
  case Nil
  then show ?case by simp
next
  case (Cons c cs)
  have "(\<forall>i\<le>Suc (length cs). m (drop i (c # cs)) = None)
        \<longleftrightarrow> m (c # cs) = None \<and> (\<forall>j\<le>length cs. m (drop j cs) = None)"
  proof
    assume a: "\<forall>i\<le>Suc (length cs). m (drop i (c # cs)) = None"
    then have "m (drop 0 (c # cs)) = None" by blast
    moreover have "m (drop j cs) = None" if "j \<le> length cs" for j
      using a that by (metis Suc_le_mono drop_Suc_Cons)
    ultimately show "m (c # cs) = None \<and> (\<forall>j\<le>length cs. m (drop j cs) = None)" by simp
  next
    assume b: "m (c # cs) = None \<and> (\<forall>j\<le>length cs. m (drop j cs) = None)"
    show "\<forall>i\<le>Suc (length cs). m (drop i (c # cs)) = None"
    proof (intro allI impI)
      fix i assume "i \<le> Suc (length cs)"
      with b show "m (drop i (c # cs)) = None" by (cases i) simp_all
    qed
  qed
  with Cons.IH show ?case by (simp split: option.splits)
qed

lemma first_match_Some_iff:
  "first_match m s = Some r \<longleftrightarrow>
     (\<exists>i\<le>length s. m (drop i s) = Some r \<and> (\<forall>j<i. m (drop j s) = None))"
proof (induction s)
  case Nil
  then show ?case by auto
next
  case (Cons c cs)
  show ?case
  proof (cases "m (c # cs)")
    case (Some r')
    have "(\<exists>i\<le>length (c # cs). m (drop i (c # cs)) = Some r \<and> (\<forall>j<i. m (drop j (c # cs)) = None))
          \<longleftrightarrow> r' = r"
    proof
      assume "\<exists>i\<le>length (c # cs). m (drop i (c # cs)) = Some r \<and> (\<forall>j<i. m (drop j (c # cs)) = None)"
      then obtain i where i: "m (drop i (c # cs)) = Some r" "\<forall>j<i. m (drop j (c # cs)) = None" by blast
      have "i = 0"
      proof (rule ccontr)
        assume "i \<noteq> 0"
        then have "0 < i" by simp
        with i(2) have "m (drop 0 (c # cs)) = None" by blast
        with Some show False by simp
      qed
      with i(1) Some show "r' = r" by simp
    next
      assume "r' = r"
      with Some have "m (drop 0 (c # cs)) = Some r \<and> (\<forall>j<0. m (drop j (c # cs)) = None)" by simp
      then show "\<exists>i\<le>length (c # cs). m (drop i (c # cs)) = Some r \<and> (\<forall>j<i. m (drop j (c # cs)) = None)"
        by blast
    qed
    with Some show ?thesis by simp
  next
    case None
    have "(\<exists>i\<le>length (c # cs). m (drop i (c # cs)) = Some r \<and> (\<forall>j<i. m (drop j (c # cs)) = None))
          \<longleftrightarrow> (\<exists>i\<le>length cs. m (drop i cs) = Some r \<and> (\<forall>j<i. m (drop j cs) = None))"
    proof
      assume "\<exists>i\<le>length (c # cs). m (drop i (c # cs)) = Some r \<and> (\<forall>j<i. m (drop j (c # cs)) = None)"
      then obtain i where i: "i \<le> length (c # cs)" "m (drop i (c # cs)) = Some r"
        "\<forall>j<i. m (drop j (c # cs)) = None" by blast
      with None obtain k where k: "i = Suc k" by (cases i) auto
      have "\<forall>j<k. m (drop j cs) = None"
      proof (intro allI impI)
        fix j assume "j < k"
        then have "Suc j < i" using k by simp
        with i(3) have "m (drop (Suc j) (c # cs)) = None" by blast
        then show "m (drop j cs) = None" by simp
      qed
      with i k show "\<exists>i\<le>length cs. m (drop i cs) = Some r \<and> (\<forall>j<i. m (drop j cs) = None)"
        by auto
    next
      assume "\<exists>i\<le>length cs. m (drop i cs) = Some r \<and> (\<forall>j<i. m (drop j cs) = None)"
      then obtain k where k: "k \<le> length cs" "m (drop k cs) = Some r" "\<forall>j<k. m (drop j cs) = None"
        by blast
      have "\<forall>j<Suc k. m (drop j (c # cs)) = None"
      proof (intro allI impI)
        fix j assume "j < Suc k"
        with None k(3) show "m (drop j (c # cs)) = None" by (cases j) simp_all
      qed
      with k have "Suc k \<le> length (c # cs) \<and> m (drop (Suc k) (c # cs)) = Some r
                   \<and> (\<forall>j<Suc k. m (drop j (c # cs)) = None)" by simp
      then show "\<exists>i\<le>length (c # cs). m (drop i (c # cs)) = Some r \<and> (\<forall>j<i. m (drop j (c # cs)) = None)"
        by blast
    qed
    with None Cons.IH show ?thesis by simp
  qed
qed

lemma spec_first_iff:
  assumes "\<And>t g. m t = Some g \<longleftrightarrow> pat t g"
  shows "spec_first pat s r \<longleftrightarrow> first_match m s = r"
proof -
  have none: "(\<forall>g. \<not> pat t g) \<longleftrightarrow> m t = None" for t
    using assms [of t] by (cases "m t") auto
  show ?thesis
  proof (cases r)
    case None
    have "spec_first pat s None \<longleftrightarrow> (\<forall>i\<le>length s. m (drop i s) = None)"
      unfolding spec_first_def option.case none ..
    then show ?thesis by (simp only: None first_match_None_iff)
  next
    case (Some g)
    have "spec_first pat s (Some g) \<longleftrightarrow>
            (\<exists>i\<le>length s. pat (drop i s) g \<and> (\<forall>j<i. m (drop j s) = None))"
      unfolding spec_first_def option.case none ..
    also have "\<dots> \<longleftrightarrow> (\<exists>i\<le>length s. m (drop i s) = Some g \<and> (\<forall>j<i. m (drop j s) = None))"
      unfolding assms ..
    finally show ?thesis by (simp only: Some first_match_Some_iff)
  qed
qed

section \<open>Reading the metadata\<close>

lemma two_digits_value:
  assumes "two_digits g"
  shows "parseInt_str g = Num (of_int (digits_value 10 g))"
    and "0 \<le> digits_value 10 g" and "digits_value 10 g < 100"
proof -
  from assms have g: "g \<noteq> []" "list_all is_digit g" "length g = 2"
    by (auto simp: two_digits_def)
  then show "parseInt_str g = Num (of_int (digits_value 10 g))"
    by (intro parseInt_str_short) simp_all
  from digits_value_range [OF g(2)] g(3)
  show "0 \<le> digits_value 10 g" and "digits_value 10 g < 100" by simp_all
qed

lemma totalSeconds_spec:
  assumes "two_digits h" "two_digits m" "two_digits s" "two_digits c"
  shows "totalSeconds (h, m, s, c) = spec_seconds h m s c"
proof -
  define H M S where "H = digits_value 10 h" and "M = digits_value 10 m" and "S = digits_value 10 s"
  note v = two_digits_value [OF assms(1)] two_digits_value [OF assms(2)]
    two_digits_value [OF assms(3)] two_digits_value [OF assms(4)]
  have b: "0 \<le> H" "H < 100" "0 \<le> M" "M < 100" "0 \<le> S" "S < 100"
    using v by (simp_all add: H_def M_def S_def)
  have 1: "js_times (Num (of_int H)) 3600 = Num (of_int (H * 3600))"
    using b double_of_nonneg_int [of "H * 3600"] by simp
  have 2: "js_times (Num (of_int M)) 60 = Num (of_int (M * 60))"
    using b double_of_nonneg_int [of "M * 60"] by simp
  have 3: "js_add (Num (of_int (H * 3600))) (Num (of_int (M * 60))) = Num (of_int (H * 3600 + M * 60))"
    using b double_of_nonneg_int [of "H * 3600 + M * 60"] by simp
  have 4: "js_add (Num (of_int (H * 3600 + M * 60))) (Num (of_int S))
           = Num (of_int (H * 3600 + M * 60 + S))"
    using b double_of_nonneg_int [of "H * 3600 + M * 60 + S"] by simp
  show ?thesis
    unfolding totalSeconds_def spec_seconds_def
    by (simp only: v(1,4,7,10) Let_def case_prod_conv H_def [symmetric] M_def [symmetric]
        S_def [symmetric] 1 2 3 4)
qed

lemma first_match_matches:
  assumes "first_match m s = Some g"
  shows "\<exists>t. m t = Some g"
  using assms first_match_Some_iff [of m s g] by blast

text \<open>
  C8. Let the first match of each of the four patterns in a diagnostic text be given by
  the shape of the text: the duration groups, the two resolution groups, the frame-rate
  number and the bit-rate digits, each possibly absent. Without a duration pattern the
  parser fails, and the callback replies with the "Could not extract video information"
  error when the text is not empty. With one, the parser succeeds: the duration is
  hours * 3600 + minutes * 60 + seconds + hundredths / 100, and width, height, frame
  rate and bit rate are the numbers of their own first matches, each absent exactly
  when its pattern matches nowhere.
\<close>

theorem parse_info_by_patterns:
  assumes "spec_first spec_duration d dm" and "spec_first spec_resolution d rm"
    and "spec_first spec_fps d fm" and "spec_first spec_bitrate d bm"
  shows "parse_info v d =
           (case dm of
              None \<Rightarrow> None
            | Some (h, m, s, c) \<Rightarrow>
                Some \<lparr> i_duration = spec_seconds h m s c,
                       i_width = map_option (\<lambda>g. Num (of_int (digits_value 10 (fst g)))) rm,
                       i_height = map_option (\<lambda>g. Num (of_int (digits_value 10 (snd g)))) rm,
                       i_fps = map_option (\<lambda>g. double_of (decimal_value g)) fm,
                       i_bitrate = map_option (\<lambda>g. double_of (of_int (digits_value 10 g))) bm,
                       i_filename = u_name v,
                       i_fileSize = u_size v \<rparr>)
         \<and> (dm = None \<and> d \<noteq> [] \<longrightarrow>
              calls (info_exec_callback inputPath v err out d w)
                = calls w @ [Json 500 ''Could not extract video information'' None])"
proof -
  have dm: "first_match duration_at d = dm"
    using assms(1) unfolding spec_first_iff [of duration_at, OF duration_at_iff] .
  have rm: "first_match resolution_at d = rm"
    using assms(2) unfolding spec_first_iff [of resolution_at, OF resolution_at_iff] .
  have fm: "first_match fps_at d = fm"
    using assms(3) unfolding spec_first_iff [of fps_at, OF fps_at_iff] .
  have bm: "first_match bitrate_at d = bm"
    using assms(4) unfolding spec_first_iff [of bitrate_at, OF bitrate_at_iff] .
  have width: "map_option (\<lambda>r. parseInt_str (fst r)) rm
               = map_option (\<lambda>g. Num (of_int (digits_value 10 (fst g)))) rm"
    and height: "map_option (\<lambda>r. parseInt_str (snd r)) rm
               = map_option (\<lambda>g. Num (of_int (digits_value 10 (snd g)))) rm"
  proof -
    have groups: "parseInt_str (fst g) = Num (of_int (digits_value 10 (fst g)))
                  \<and> parseInt_str (snd g) = Num (of_int (digits_value 10 (snd g)))"
      if "rm = Some g" for g
    proof -
      from that rm have "first_match resolution_at d = Some g" by simp
      then obtain t where "resolution_at t = Some g"
        by (rule first_match_matches [THEN exE])
      then have "spec_resolution t g" by (rule resolution_at_iff [THEN iffD1])
      then have a: "digits_3_4 (fst g)" and b: "digits_3_4 (snd g)"
        by (cases g; simp add: spec_resolution_def)+
      from a have "parseInt_str (fst g) = Num (of_int (digits_value 10 (fst g)))"
        by (intro parseInt_str_short) (auto simp: digits_3_4_def)
      moreover from b have "parseInt_str (snd g) = Num (of_int (digits_value 10 (snd g)))"
        by (intro parseInt_str_short) (auto simp: digits_3_4_def)
      ultimately show ?thesis by simp
    qed
    show "map_option (\<lambda>r. parseInt_str (fst r)) rm
               = map_option (\<lambda>g. Num (of_int (digits_value 10 (fst g)))) rm"
      using groups by (cases rm) simp_all
    show "map_option (\<lambda>r. parseInt_str (snd r)) rm
               = map_option (\<lambda>g. Num (of_int (digits_value 10 (snd g)))) rm"
      using groups by (cases rm) simp_all
  qed
  have bitrate: "map_option parseInt_str bm = map_option (\<lambda>g. double_of (of_int (digits_value 10 g))) bm"
  proof (cases bm)
    case None
    then show ?thesis by simp
  next
    case (Some g)
    with bm have "first_match bitrate_at d = Some g" by simp
    then obtain t where "bitrate_at t = Some g"
      by (rule first_match_matches [THEN exE])
    then have "spec_bitrate t g" by (rule bitrate_at_iff [THEN iffD1])
    then have "digit_run g" unfolding spec_bitrate_def by (rule conjunct1)
    then have "parseInt_str g = double_of (of_int (digits_value 10 g))"
      by (intro parseInt_str_digits) (simp_all add: digit_run_def)
    then show ?thesis by (simp add: Some)
  qed
  have fps: "map_option parseFloat_decimal fm = map_option (\<lambda>g. double_of (decimal_value g)) fm"
    by (simp add: parseFloat_decimal_def [abs_def])
  have parse: "parse_info v d =
           (case dm of
              None \<Rightarrow> None
            | Some (h, m, s, c) \<Rightarrow>
                Some \<lparr> i_duration = spec_seconds h m s c,
                       i_width = map_option (\<lambda>g. Num (of_int (digits_value 10 (fst g)))) rm,
                       i_height = map_option (\<lambda>g. Num (of_int (digits_value 10 (snd g)))) rm,
                       i_fps = map_option (\<lambda>g. double_of (decimal_value g)) fm,
                       i_bitrate = map_option (\<lambda>g. double_of (of_int (digits_value 10 g))) bm,
                       i_filename = u_name v,
                       i_fileSize = u_size v \<rparr>)"
  proof (cases dm)
    case None
    with dm show ?thesis by (simp add: parse_info_def)
  next
    case (Some g)
    obtain h m s c where g: "g = (h, m, s, c)" by (cases g)
    from Some dm have "first_match duration_at d = Some g" by simp
    then obtain t where "duration_at t = Some g"
      by (rule first_match_matches [THEN exE])
    then have "spec_duration t (h, m, s, c)" unfolding g by (rule duration_at_iff [THEN iffD1])
    then have "two_digits h" "two_digits m" "two_digits s" "two_digits c"
      by (simp_all add: spec_duration_def)
    then have "totalSeconds g = spec_seconds h m s c"
      unfolding g by (rule totalSeconds_spec)
    then show ?thesis
      using dm by (simp add: parse_info_def Let_def rm fm bm Some g width height bitrate fps)
  qed
  moreover have "calls (info_exec_callback inputPath v err out d w)
                = calls w @ [Json 500 ''Could not extract video information'' None]"
    if "dm = None" and "d \<noteq> []"
    using that parse
    by (simp add: info_exec_callback_def res_json_def res_send_def unlinkSync_def)
  ultimately show ?thesis by blast
qed

text \<open>
  Runs of C8. A diagnostic text as ffmpeg prints it gives 65.5 seconds, 1280 by 720,
  29.97 frames per second (the binary64 number nearest to it) and 1205 kb/s; a text
  without a duration gives no metadata.
\<close>

theorem parse_info_by_patterns_witness:
  "parse_info \<lparr>u_name = ''a.mp4'', u_size = 1000\<rparr>
     ''  Duration: 00:01:05.50, start: 0.000000, bitrate: 1205 kb/s Stream #0:0: Video: h264, yuv420p, 1280x720, 1100 kb/s, 29.97 fps, 30 tbr''
     = Some \<lparr> i_duration = Num (131 / 2), i_width = Some (Num 1280), i_height = Some (Num 720),
              i_fps = Some (Num (1054475631502295 / 35184372088832)), i_bitrate = Some (Num 1205),
              i_filename = ''a.mp4'', i_fileSize = 1000 \<rparr>
   \<and> parse_info \<lparr>u_name = ''a.mp4'', u_size = 1000\<rparr> ''a.mp4: No such file or directory'' = None"
proof -
  let ?v = "\<lparr>u_name = ''a.mp4'', u_size = 1000\<rparr>"
  let ?d = "''  Duration: 00:01:05.50, start: 0.000000, bitrate: 1205 kb/s Stream #0:0: Video: h264, yuv420p, 1280x720, 1100 kb/s, 29.97 fps, 30 tbr''"
  let ?n = "''a.mp4: No such file or directory''"
  have "first_match duration_at ?d = Some (''00'', ''01'', ''05'', ''50'')" by code_simp
  then have d1: "spec_first spec_duration ?d (Some (''00'', ''01'', ''05'', ''50''))"
    by (rule spec_first_iff [of duration_at, OF duration_at_iff, THEN iffD2])
  have "first_match resolution_at ?d = Some (''1280'', ''720'')" by code_simp
  then have d2: "spec_first spec_resolution ?d (Some (''1280'', ''720''))"
    by (rule spec_first_iff [of resolution_at, OF resolution_at_iff, THEN iffD2])
  have "first_match fps_at ?d = Some ''29.97''" by code_simp
  then have d3: "spec_first spec_fps ?d (Some ''29.97'')"
    by (rule spec_first_iff [of fps_at, OF fps_at_iff, THEN iffD2])
  have "first_match bitrate_at ?d = Some ''1205''" by code_simp
  then have d4: "spec_first spec_bitrate ?d (Some ''1205'')"
    by (rule spec_first_iff [of bitrate_at, OF bitrate_at_iff, THEN iffD2])
  have "first_match duration_at ?n = None" by code_simp
  then have n1: "spec_first spec_duration ?n None"
    by (rule spec_first_iff [of duration_at, OF duration_at_iff, THEN iffD2])
  have "first_match resolution_at ?n = None" by code_simp
  then have n2: "spec_first spec_resolution ?n None"
    by (rule spec_first_iff [of resolution_at, OF resolution_at_iff, THEN iffD2])
  have "first_match fps_at ?n = None" by code_simp
  then have n3: "spec_first spec_fps ?n None"
    by (rule spec_first_iff [of fps_at, OF fps_at_iff, THEN iffD2])
  have "first_match bitrate_at ?n = None" by code_simp
  then have n4: "spec_first spec_bitrate ?n None"
    by (rule spec_first_iff [of bitrate_at, OF bitrate_at_iff, THEN iffD2])
  have vals: "spec_seconds ''00'' ''01'' ''05'' ''50'' = Num (131 / 2)"
    "digits_value 10 ''1280'' = 1280" "digits_value 10 ''720'' = 720"
    "double_of (decimal_value ''29.97'') = Num (1054475631502295 / 35184372088832)"
    "double_of (of_int (digits_value 10 ''1205'')) = Num 1205"
    by code_simp+
  from parse_info_by_patterns [OF d1 d2 d3 d4, of ?v "[]" None "[]" fresh]
  have "parse_info ?v ?d
     = Some \<lparr> i_duration = Num (131 / 2), i_width = Some (Num 1280), i_height = Some (Num 720),
              i_fps = Some (Num (1054475631502295 / 35184372088832)), i_bitrate = Some (Num 1205),
              i_filename = ''a.mp4'', i_fileSize = 1000 \<rparr>"
    by (simp add: vals)
  moreover from parse_info_by_patterns [OF n1 n2 n3 n4, of ?v "[]" None "[]" fresh]
  have "parse_info ?v ?n = None" by simp
  ultimately show ?thesis by (simp only: simp_thms)
qed

text \<open>
  The duration \<^verbatim>\<open>00:00:01.14\<close> is 1 + 0.14 in binary64, printed 1.1400000000000001.
\<close>

lemma spec_seconds_rounds: "spec_seconds ''00'' ''00'' ''01'' ''14'' = Num (2567051787601183 / 2251799813685248)"
  by code_simp

section \<open>A request without a text field\<close>

text \<open>
  C7. A conversion request whose upload carries the file and no text field: the body is
  undefined, reading the settings throws, and the handler answers from its \<^verbatim>\<open>catch\<close>
  block with the internal-error reply; the upload is not moved and no child is run.
\<close>

theorem settings_of_absent_body_throw:
  "read_settings parseFloat_absent (body (upload_a\<lparr>body := None\<rparr>))
     = Inl (TypeError ''Cannot read properties of undefined (reading 'fps')'')
   \<and> calls (gif_handler failing_run (upload_a\<lparr>body := None\<rparr>) fresh)
     = [Json 500 ''Internal server error'' None]
   \<and> files (gif_handler failing_run (upload_a\<lparr>body := None\<rparr>) fresh)
         ''/tmp/input-1700000000000-a.mp4'' = None"
  by (simp add: read_settings_def run_defs valid_a stamp)

text \<open>
  The run of C7 once more: the upload is accepted, so the handler reaches the settings,
  and its only reply is the internal error.
\<close>

theorem settings_of_absent_body_throw_witness:
  "isValidVideoFile ''a.mp4''
   \<and> body (upload_a\<lparr>body := None\<rparr>) = None
   \<and> calls (gif_handler failing_run (upload_a\<lparr>body := None\<rparr>) fresh)
     = [Json 500 ''Internal server error'' None]"
  using settings_of_absent_body_throw by (simp add: valid_a)

text \<open>With a body that is an object the settings are read and are in range.\<close>

lemma read_settings_in_range:
  "\<exists>st. read_settings parseFloat (Some b) = Inr st
        \<and> js_le (Num 5) (fps st) \<and> js_le (fps st) (Num 30)
        \<and> js_le (Num 240) (scale st) \<and> js_le (scale st) (Num 1920)
        \<and> js_le (Num 0) (startTime st) \<and> js_le (Num 0) (duration st)"
  using normalize_in_range [of parseFloat b] by (simp add: read_settings_def)

section \<open>The metadata reply and the streams of the probe\<close>

text \<open>The callback of the probe reads neither its error nor its standard output.\<close>

lemma info_exec_callback_ignores_err:
  "info_exec_callback inputPath v err out diag w = info_exec_callback inputPath v err' out' diag w"
  by (simp add: info_exec_callback_def)

text \<open>
  Whatever the child writes and however it ends, the probe of an accepted and saved
  upload is answered with the "FFmpeg info extraction failed" error: the command line
  sends the error stream into the output stream, and the callback finds its error text
  empty.
\<close>

lemma info_handler_reply:
  assumes "video req = Some v" and "isValidVideoFile (u_name v)" and "mv_error e = None"
  shows "calls (info_handler e req w) = calls w @ [Json 500 ''FFmpeg info extraction failed'' None]"
  using assms
  by (simp add: info_handler_def info_command_streams info_exec_callback_def Let_def res_json_def
      res_send_def unlinkSync_def)

text \<open>
  C10. Runs of the metadata endpoint in which the child writes a text with a Duration
  pattern to its error stream, and exits with status 1 or with status 0. Handed to the
  callback as its error text, the text would be answered with a metadata payload; the
  endpoint answers both runs with the "FFmpeg info extraction failed" error.
\<close>

theorem probe_text_not_parsed:
  "first_match duration_at ''  Duration: 00:00:03.20, start: 0.000000'' = Some (''00'', ''00'', ''03'', ''20'')
   \<and> (\<exists>info. calls (info_exec_callback ''/tmp/info-1700000000000-a.mp4'' \<lparr>u_name = ''a.mp4'', u_size = 1000\<rparr>
          (Some (Exited 1)) [] ''  Duration: 00:00:03.20, start: 0.000000'' fresh) = [Info info])
   \<and> calls (info_handler (failing_run\<lparr>child_stderr := ''  Duration: 00:00:03.20, start: 0.000000''\<rparr>)
         upload_a fresh)
     = [Json 500 ''FFmpeg info extraction failed'' None]
   \<and> calls (info_handler (failing_run\<lparr>child_ending := Exited 0,
                                        child_stderr := ''  Duration: 00:00:03.20, start: 0.000000''\<rparr>)
         upload_a fresh)
     = [Json 500 ''FFmpeg info extraction failed'' None]"
proof -
  let ?d = "''  Duration: 00:00:03.20, start: 0.000000''"
  have m: "first_match duration_at ?d = Some (''00'', ''00'', ''03'', ''20'')" by code_simp
  then have "\<exists>info. calls (info_exec_callback ''/tmp/info-1700000000000-a.mp4''
          \<lparr>u_name = ''a.mp4'', u_size = 1000\<rparr> (Some (Exited 1)) [] ?d fresh) = [Info info]"
    by (simp add: info_exec_callback_def parse_info_def Let_def res_info_def res_send_def fresh_def
        existsSync_def)
  moreover have "calls (info_handler (failing_run\<lparr>child_stderr := ?d\<rparr>) upload_a fresh)
     = [Json 500 ''FFmpeg info extraction failed'' None]"
    using info_handler_reply [of upload_a "\<lparr>u_name = ''a.mp4'', u_size = 1000\<rparr>"
        "failing_run\<lparr>child_stderr := ?d\<rparr>" fresh]
    by (simp add: upload_a_def failing_run_def fresh_def valid_a)
  moreover have "calls (info_handler (failing_run\<lparr>child_ending := Exited 0, child_stderr := ?d\<rparr>)
         upload_a fresh) = [Json 500 ''FFmpeg info extraction failed'' None]"
    using info_handler_reply [of upload_a "\<lparr>u_name = ''a.mp4'', u_size = 1000\<rparr>"
        "failing_run\<lparr>child_ending := Exited 0, child_stderr := ?d\<rparr>" fresh]
    by (simp add: upload_a_def failing_run_def fresh_def valid_a)
  ultimately show ?thesis using m by (simp only: simp_thms)
qed

text \<open>
  The first run of C10 once more: the upload is accepted and saved, the child's error
  text is not empty, and the reply is the extraction error.
\<close>

theorem probe_text_not_parsed_witness:
  "isValidVideoFile ''a.mp4''
   \<and> mv_error failing_run = None
   \<and> ''  Duration: 00:00:03.20, start: 0.000000'' \<noteq> []
   \<and> last (calls (info_handler (failing_run\<lparr>child_stderr := ''  Duration: 00:00:03.20, start: 0.000000''\<rparr>)
               upload_a fresh))
       = Json 500 ''FFmpeg info extraction failed'' None"
proof -
  have "calls (info_handler (failing_run\<lparr>child_stderr := ''  Duration: 00:00:03.20, start: 0.000000''\<rparr>)
         upload_a fresh) = [Json 500 ''FFmpeg info extraction failed'' None]"
    using probe_text_not_parsed by blast
  then show ?thesis by (simp add: valid_a failing_run_def)
qed

end
